theory Spec2Isabelle
  imports Complex_Main "HOL-Library.Multiset"
begin

section \<open>Segments\<close>

text \<open>
  The Go struct \<^verbatim>\<open>Segment {Start, End float64}\<close>. Seconds are modelled as real
  numbers: comparisons and the additions of the source are the exact ones, and the
  values NaN and infinity of a float64 are outside the model.
\<close>

record Segment =
  Start :: real
  End :: real

section \<open>The interval merger\<close>

subsection \<open>sort.Slice\<close>

text \<open>
  \<^verbatim>\<open>sort.Slice(segments, func(i, j int) bool { return segments[i].Start < segments[j].Start })\<close>
  sorts the caller's slice in place. The library runs an insertion sort on a short slice:
  \<^verbatim>\<open>
  for i := a + 1; i < b; i++ {
      for j := i; j > a && data.Less(j, j-1); j-- { data.Swap(j, j-1) }
  }
  \<close>
  \<open>sift x p\<close> is the inner loop: \<open>p\<close> is the part of the slice before \<open>x\<close>, nearest
  neighbour first, and \<open>x\<close> moves left while it is less than its neighbour.
\<close>

fun sift :: "Segment \<Rightarrow> Segment list \<Rightarrow> Segment list" where
  "sift x [] = [x]"
| "sift x (y # p) = (if Start x < Start y then y # sift x p else x # y # p)"

definition sort_Slice :: "Segment list \<Rightarrow> Segment list" where
  "sort_Slice segments = rev (foldl (\<lambda>p x. sift x p) [] segments)"

subsection \<open>mergeSegments\<close>

text \<open>
  The sweep of \<^verbatim>\<open>mergeSegments\<close>: \<open>current\<close>, the segments from index \<open>i\<close> on,
  and \<open>merged\<close>.
\<close>

fun sweep :: "Segment \<Rightarrow> Segment list \<Rightarrow> Segment list \<Rightarrow> Segment list" where
  "sweep current [] merged = merged @ [current]"
| "sweep current (s # rest) merged =
     (if Start s \<le> End current + 1 then
        (if End s > End current then sweep (current\<lparr>End := End s\<rparr>) rest merged
         else sweep current rest merged)
      else sweep s rest (merged @ [current]))"

text \<open>
  \<^verbatim>\<open>mergeSegments\<close> with its effect on the argument written out: the first component is
  the caller's slice after the call (sorted in place), the second the returned slice.
  An empty slice is returned as it is, before any sorting. The sorted slice of a
  non-empty one is never empty, so the inner empty case is not reached: it stands for
  \<^verbatim>\<open>segments[0]\<close> where there is no element.
\<close>

definition mergeSegments :: "Segment list \<Rightarrow> Segment list \<times> Segment list" where
  "mergeSegments segments =
     (case segments of
        [] \<Rightarrow> (segments, segments)
      | _ # _ \<Rightarrow>
          (case sort_Slice segments of
             [] \<Rightarrow> (segments, segments)
           | current # rest \<Rightarrow> (current # rest, sweep current rest [])))"

text \<open>The properties of a merged list that the specification names.\<close>

fun separated :: "Segment list \<Rightarrow> bool" where
  "separated (a # b # r) = (Start b > End a + 1 \<and> separated (b # r))"
| "separated _ = True"

definition well_formed :: "Segment list \<Rightarrow> bool" where
  "well_formed xs = list_all (\<lambda>s. Start s \<le> End s) xs"

definition strictly_by_start :: "Segment list \<Rightarrow> bool" where
  "strictly_by_start xs = sorted_wrt (\<lambda>a b. Start a < Start b) xs"

definition by_start :: "Segment list \<Rightarrow> bool" where
  "by_start xs = sorted_wrt (\<lambda>a b. Start a \<le> Start b) xs"

section \<open>Library functions on strings\<close>

text \<open>
  A Go string is a sequence of bytes, here a \<open>char list\<close>. The functions of the Go
  library that the program calls are modelled from their documented behaviour. On a
  string of ASCII bytes they are computed here in full. What they do on other bytes
  depends on the Unicode tables of the library, so it is taken as a parameter: a record
  of the library's functions, consulted only on a string that holds a byte of 128 or more.
\<close>

record unicode_lib =
  Quote_u :: "string \<Rightarrow> string"
  ToLower_u :: "string \<Rightarrow> string"
  TrimFunc_IsSpace :: "string \<Rightarrow> string"
  TrimRightFunc_IsSpace :: "string \<Rightarrow> string"

definition is_ascii :: "char \<Rightarrow> bool" where
  "is_ascii c = (of_char c < (128::nat))"

definition dq :: char where "dq = CHR 0x22"
definition sq :: char where "sq = CHR 0x27"
definition backslash :: char where "backslash = CHR 0x5C"

definition lowerhex :: string where
  "lowerhex = ''0123456789abcdef''"

text \<open>
  \<^verbatim>\<open>strconv.Quote\<close>, which \<^verbatim>\<open>%q\<close> applies to a string: one ASCII byte inside the
  double quotes. The quote and the backslash are escaped, a printable byte stands for
  itself, a control byte is written with its letter or as \<^verbatim>\<open>\x\<close> and two hex digits.
\<close>

definition escape_ascii :: "char \<Rightarrow> string" where
  "escape_ascii c =
     (if c = dq \<or> c = backslash then [backslash, c]
      else if 32 \<le> (of_char c :: nat) \<and> (of_char c :: nat) < 127 then [c]
      else if c = CHR 0x07 then [backslash, CHR ''a'']
      else if c = CHR 0x08 then [backslash, CHR ''b'']
      else if c = CHR 0x0C then [backslash, CHR ''f'']
      else if c = CHR 0x0A then [backslash, CHR ''n'']
      else if c = CHR 0x0D then [backslash, CHR ''r'']
      else if c = CHR 0x09 then [backslash, CHR ''t'']
      else if c = CHR 0x0B then [backslash, CHR ''v'']
      else [backslash, CHR ''x'', lowerhex ! (of_char c div 16), lowerhex ! (of_char c mod 16)])"

definition Quote :: "unicode_lib \<Rightarrow> string \<Rightarrow> string" where
  "Quote U s =
     (if list_all is_ascii s then [dq] @ concat (map escape_ascii s) @ [dq]
      else Quote_u U s)"

text \<open>\<^verbatim>\<open>strings.Join\<close>.\<close>

fun Join :: "string list \<Rightarrow> string \<Rightarrow> string" where
  "Join [] sep = []"
| "Join [x] sep = x"
| "Join (x # y # r) sep = x @ sep @ Join (y # r) sep"

text \<open>
  \<^verbatim>\<open>strings.Index\<close> and \<^verbatim>\<open>strings.LastIndex\<close>: the position of the first and of the
  last occurrence, \<open>None\<close> for the library's -1.
\<close>

fun starts_with :: "string \<Rightarrow> string \<Rightarrow> bool" where
  "starts_with s [] = True"
| "starts_with [] (p # ps) = False"
| "starts_with (c # cs) (p # ps) = (c = p \<and> starts_with cs ps)"

fun Index :: "string \<Rightarrow> string \<Rightarrow> nat option" where
  "Index [] sub = (if sub = [] then Some 0 else None)"
| "Index (c # cs) sub =
     (if starts_with (c # cs) sub then Some 0 else map_option Suc (Index cs sub))"

fun LastIndex :: "string \<Rightarrow> string \<Rightarrow> nat option" where
  "LastIndex [] sub = (if sub = [] then Some 0 else None)"
| "LastIndex (c # cs) sub =
     (case LastIndex cs sub of
        Some i \<Rightarrow> Some (Suc i)
      | None \<Rightarrow> if starts_with (c # cs) sub then Some 0 else None)"

definition Contains :: "string \<Rightarrow> string \<Rightarrow> bool" where
  "Contains s sub = (Index s sub \<noteq> None)"

subsection \<open>Formatting a float with a fixed number of decimals\<close>

text \<open>
  \<^verbatim>\<open>%.3f\<close> and \<^verbatim>\<open>%f\<close> (six decimals) print the decimal expansion of the value
  rounded to the precision, a tie going to the even digit, after a minus sign for a
  negative value.
\<close>

definition digit_char :: "nat \<Rightarrow> char" where
  "digit_char d = ''0123456789'' ! (d mod 10)"

fun decimal :: "nat \<Rightarrow> string" where
  "decimal n = (if n < 10 then [digit_char n] else decimal (n div 10) @ [digit_char n])"

fun decimal_padded :: "nat \<Rightarrow> nat \<Rightarrow> string" where
  "decimal_padded 0 n = []"
| "decimal_padded (Suc p) n = decimal_padded p (n div 10) @ [digit_char n]"

definition round_half_even :: "real \<Rightarrow> nat" where
  "round_half_even y =
     (let n = nat \<lfloor>y\<rfloor>; r = y - of_int \<lfloor>y\<rfloor>
      in if r > 1 / 2 \<or> (r = 1 / 2 \<and> odd n) then n + 1 else n)"

definition fmt_f :: "nat \<Rightarrow> real \<Rightarrow> string" where
  "fmt_f prec x =
     (let n = round_half_even (\<bar>x\<bar> * 10 ^ prec)
      in (if x < 0 then ''-'' else []) @ decimal (n div 10 ^ prec) @
         (if prec = 0 then [] else ''.'' @ decimal_padded prec (n mod 10 ^ prec)))"

section \<open>The mute directive generator\<close>

text \<open>The loop body of \<^verbatim>\<open>generateFFmpegCommand\<close>: \<^verbatim>\<open>Sprintf("between(t,%.3f,%.3f)", seg.Start, seg.End)\<close>.\<close>

definition between :: "Segment \<Rightarrow> string" where
  "between seg = ''between(t,'' @ fmt_f 3 (Start seg) @ '','' @ fmt_f 3 (End seg) @ '')''"

definition generateFFmpegCommand :: "unicode_lib \<Rightarrow> string \<Rightarrow> string \<Rightarrow> Segment list \<Rightarrow> string" where
  "generateFFmpegCommand U inputVideo outputVideo segments =
     (if segments = [] then
        ''No segments to mute. Copying input to output: ffmpeg -i '' @ Quote U inputVideo @
        '' -c copy '' @ Quote U outputVideo
      else
        let enableConditions = map between segments;
            enableExpr = Join enableConditions ''+'';
            filter = ''volume=enable='' @ [sq] @ enableExpr @ [sq] @ '':volume=0''
        in ''ffmpeg -i '' @ Quote U inputVideo @ '' -af '' @ Quote U filter @
           '' -c:v copy -c:a aac '' @ Quote U outputVideo)"

text \<open>
  \<^verbatim>\<open>getVolumeFilter\<close> reads \<^verbatim>\<open>app.lastCommand\<close>. The slice expression
  \<^verbatim>\<open>cmdStr[start : end+1]\<close> panics when \<open>start\<close> is greater than \<open>end + 1\<close>.
\<close>

datatype panic = SliceBoundsOutOfRange

definition getVolumeFilter :: "string \<Rightarrow> panic + string" where
  "getVolumeFilter lastCommand =
     (let cmdStr = lastCommand;
          start = Index cmdStr ''between('';
          end = LastIndex cmdStr '')''
      in case (start, end) of
           (Some i, Some j) \<Rightarrow>
             if i \<le> j + 1 then Inr (take (j + 1 - i) (drop i cmdStr))
             else Inl SliceBoundsOutOfRange
         | _ \<Rightarrow> Inr [])"

text \<open>
  An instance of the library record for evaluating the model on ASCII input, where
  no field of it is consulted.
\<close>

definition ascii_only :: unicode_lib where
  "ascii_only = \<lparr>Quote_u = (\<lambda>s. s), ToLower_u = (\<lambda>s. s),
     TrimFunc_IsSpace = (\<lambda>s. s), TrimRightFunc_IsSpace = (\<lambda>s. s)\<rparr>"

text \<open>
  Two properties of strings that the statements below use. A plain string is made of
  printable ASCII bytes other than the double quote and the backslash. A string has
  \<open>p\<close> decimals when it is an optional minus sign, one digit or more, a period and
  exactly \<open>p\<close> digits.
\<close>

definition plain_char :: "char \<Rightarrow> bool" where
  "plain_char c =
     (32 \<le> (of_char c :: nat) \<and> (of_char c :: nat) < 127 \<and> c \<noteq> dq \<and> c \<noteq> backslash)"

definition plain :: "string \<Rightarrow> bool" where
  "plain s = list_all plain_char s"

definition isDigit :: "char \<Rightarrow> bool" where
  "isDigit c = (c \<in> set ''0123456789'')"

definition has_decimals :: "nat \<Rightarrow> string \<Rightarrow> bool" where
  "has_decimals p s =
     (let body = (if starts_with s ''-'' then tl s else s); n = length body
      in p + 2 \<le> n \<and> list_all isDigit (take (n - p - 1) body) \<and>
         body ! (n - p - 1) = CHR ''.'' \<and> list_all isDigit (drop (n - p) body))"

section \<open>The timestamp converter\<close>

datatype error =
  FailedToParseSRTTime string
| FailedToOpenSRTFile
| ErrorReadingSRTFile

text \<open>\<^verbatim>\<open>strings.Replace(srtTime, ",", ".", 1)\<close>: the first comma becomes a period.\<close>

fun replace_first_comma :: "string \<Rightarrow> string" where
  "replace_first_comma [] = []"
| "replace_first_comma (c # cs) =
     (if c = CHR '','' then CHR ''.'' # cs else c # replace_first_comma cs)"

text \<open>
  \<^verbatim>\<open>time.Parse("15:04:05.000", value)\<close>, the library's parser run on this one layout.
  The layout is the hour (\<^verbatim>\<open>15\<close>: one or two digits, below 24), a colon, the minute
  (\<^verbatim>\<open>04\<close>: two digits, below 60), a colon, the second (\<^verbatim>\<open>05\<close>: two digits, below 60)
  and the fraction (\<^verbatim>\<open>.000\<close>: a period or comma and exactly three more bytes, read by
  the package's \<^verbatim>\<open>atoi\<close>, which takes a sign); nothing may follow. \<open>None\<close> is any of
  the parser's errors.
\<close>

definition digit_val :: "char \<Rightarrow> nat" where
  "digit_val c = of_char c - 48"

definition getnum :: "string \<Rightarrow> bool \<Rightarrow> (nat \<times> string) option" where
  "getnum s fixed =
     (case s of
        [] \<Rightarrow> None
      | c0 # r0 \<Rightarrow>
          if \<not> isDigit c0 then None
          else (case r0 of
                  [] \<Rightarrow> if fixed then None else Some (digit_val c0, r0)
                | c1 # r1 \<Rightarrow>
                    if \<not> isDigit c1 then (if fixed then None else Some (digit_val c0, r0))
                    else Some (digit_val c0 * 10 + digit_val c1, r1)))"

definition skip_colon :: "string \<Rightarrow> string option" where
  "skip_colon v = (case v of [] \<Rightarrow> None | c # r \<Rightarrow> if c = CHR '':'' then Some r else None)"

definition atoi :: "string \<Rightarrow> int option" where
  "atoi s =
     (let neg = (s \<noteq> [] \<and> hd s = CHR ''-'');
          s' = (if s \<noteq> [] \<and> (hd s = CHR ''-'' \<or> hd s = CHR ''+'') then tl s else s)
      in if list_all isDigit s'
         then (let x = int (foldl (\<lambda>x c. x * 10 + digit_val c) 0 s') in Some (if neg then - x else x))
         else None)"

definition parseNanoseconds :: "string \<Rightarrow> nat \<Rightarrow> nat option" where
  "parseNanoseconds v nbytes =
     (if \<not> (hd v = CHR '','' \<or> hd v = CHR ''.'') then None
      else case atoi (take (nbytes - 1) (tl v)) of
             None \<Rightarrow> None
           | Some ns \<Rightarrow> if ns < 0 then None else Some (nat ns * 10 ^ (10 - nbytes)))"

definition time_Parse_clock :: "string \<Rightarrow> (nat \<times> nat \<times> nat \<times> nat) option" where
  "time_Parse_clock v =
     (case getnum v False of None \<Rightarrow> None | Some (hour, v1) \<Rightarrow>
      if 24 \<le> hour then None else
      case skip_colon v1 of None \<Rightarrow> None | Some v2 \<Rightarrow>
      case getnum v2 True of None \<Rightarrow> None | Some (minute, v3) \<Rightarrow>
      if 60 \<le> minute then None else
      case skip_colon v3 of None \<Rightarrow> None | Some v4 \<Rightarrow>
      case getnum v4 True of None \<Rightarrow> None | Some (second, v5) \<Rightarrow>
      if 60 \<le> second then None else
      if length v5 < 4 then None else
      case parseNanoseconds v5 4 of None \<Rightarrow> None | Some nsec \<Rightarrow>
      if drop 4 v5 \<noteq> [] then None else Some (hour, minute, second, nsec))"

text \<open>
  \<^verbatim>\<open>parseSRTTime\<close>. The sum and the quotient are the exact ones; the rounding of
  float64 is not modelled.
\<close>

definition parseSRTTime :: "string \<Rightarrow> error + real" where
  "parseSRTTime srtTime =
     (let srtTime' = replace_first_comma srtTime
      in case time_Parse_clock srtTime' of
           None \<Rightarrow> Inl (FailedToParseSRTTime srtTime')
         | Some (hour, minute, second, nanosecond) \<Rightarrow>
             Inr (real (hour * 3600 + minute * 60 + second) + real nanosecond / 1000000000))"

text \<open>
  The lexical form \<open>HH:MM:SS,mmm\<close> of the specification: two digits, a colon, two
  digits, a colon, two digits, a comma, three digits. \<open>d\<close> in the shape stands for a
  digit.
\<close>

definition has_shape :: "string \<Rightarrow> string \<Rightarrow> bool" where
  "has_shape shape s = list_all2 (\<lambda>p c. if p = CHR ''d'' then isDigit c else c = p) shape s"

definition srt_timestamp :: "string \<Rightarrow> bool" where
  "srt_timestamp s = has_shape ''dd:dd:dd,ddd'' s"

section \<open>The interval extractor\<close>

subsection \<open>Library functions\<close>

text \<open>
  \<^verbatim>\<open>strings.TrimSpace\<close>: ASCII white space is cut from both ends; at a byte of 128 or
  more the library goes on with its Unicode functions on what is left.
\<close>

definition asciiSpace :: "char \<Rightarrow> bool" where
  "asciiSpace c = (c \<in> set [CHR 0x09, CHR 0x0A, CHR 0x0B, CHR 0x0C, CHR 0x0D, CHR 0x20])"

definition TrimSpace :: "unicode_lib \<Rightarrow> string \<Rightarrow> string" where
  "TrimSpace U s =
     (case dropWhile asciiSpace s of
        [] \<Rightarrow> []
      | c # r \<Rightarrow>
          if \<not> is_ascii c then TrimFunc_IsSpace U (c # r)
          else (case dropWhile asciiSpace (rev (c # r)) of
                  [] \<Rightarrow> []
                | d # t \<Rightarrow>
                    if \<not> is_ascii d then TrimRightFunc_IsSpace U (rev (d # t))
                    else rev (d # t)))"

text \<open>\<^verbatim>\<open>strings.ToLower\<close>: an ASCII string is lowered byte by byte.\<close>

definition lower_ascii :: "char \<Rightarrow> char" where
  "lower_ascii c =
     (if 65 \<le> (of_char c :: nat) \<and> (of_char c :: nat) \<le> 90 then char_of (of_char c + (32::nat)) else c)"

definition ToLower :: "unicode_lib \<Rightarrow> string \<Rightarrow> string" where
  "ToLower U s = (if list_all is_ascii s then map lower_ascii s else ToLower_u U s)"

text \<open>
  The regular expression
  \<^verbatim>\<open>(\d{2}:\d{2}:\d{2},\d{3})\s*-->\s*(\d{2}:\d{2}:\d{2},\d{3})\<close>, searched anywhere in the
  line. \<^verbatim>\<open>FindStringSubmatch\<close> gives the two groups of the leftmost match.
\<close>

definition re_space :: "char \<Rightarrow> bool" where
  "re_space c = (c \<in> set [CHR 0x09, CHR 0x0A, CHR 0x0C, CHR 0x0D, CHR 0x20])"

definition timestamp_at :: "string \<Rightarrow> (string \<times> string) option" where
  "timestamp_at s =
     (if 12 \<le> length s \<and> srt_timestamp (take 12 s) then Some (take 12 s, drop 12 s) else None)"

definition match_here :: "string \<Rightarrow> (string \<times> string) option" where
  "match_here s =
     (case timestamp_at s of
        None \<Rightarrow> None
      | Some (m1, r1) \<Rightarrow>
          let r2 = dropWhile re_space r1
          in if starts_with r2 ''-->'' then
               (case timestamp_at (dropWhile re_space (drop 3 r2)) of
                  None \<Rightarrow> None
                | Some (m2, r3) \<Rightarrow> Some (m1, m2))
             else None)"

fun FindStringSubmatch :: "string \<Rightarrow> (string \<times> string) option" where
  "FindStringSubmatch [] = None"
| "FindStringSubmatch (c # cs) =
     (case match_here (c # cs) of Some m \<Rightarrow> Some m | None \<Rightarrow> FindStringSubmatch cs)"

definition MatchString :: "string \<Rightarrow> bool" where
  "MatchString line = (FindStringSubmatch line \<noteq> None)"

subsection \<open>findSwearTimestamps\<close>

text \<open>
  The local variables of \<^verbatim>\<open>findSwearTimestamps\<close>, and the messages that it has passed
  to \<^verbatim>\<open>app.log\<close> (to \<^verbatim>\<open>fmt.Printf\<close> in the command-line program).
\<close>

record scanner_state =
  segments :: "Segment list"
  currentStart :: real
  currentEnd :: real
  inSubtitleBlock :: bool
  subtitleText :: string
  logged :: "string list"

definition warning :: "real \<Rightarrow> real \<Rightarrow> real \<Rightarrow> string" where
  "warning offset start end =
     ''Warning: Offset '' @ fmt_f 6 offset @ '' makes segment ('' @ fmt_f 6 start @ '', '' @
     fmt_f 6 end @ '') negative, skipping''"

text \<open>
  The loop over the swears at a blank line. After a warning it goes on with the next
  swear (\<^verbatim>\<open>continue\<close>); after a segment it stops (\<^verbatim>\<open>break\<close>).
\<close>

fun check_swears :: "unicode_lib \<Rightarrow> real \<Rightarrow> string \<Rightarrow> string list \<Rightarrow> scanner_state \<Rightarrow> scanner_state" where
  "check_swears U offset text [] st = st"
| "check_swears U offset text (swear # rest) st =
     (let lowerSwear = ToLower U swear
      in if Contains text lowerSwear then
           (let adjustedStart = currentStart st + offset;
                adjustedEnd = currentEnd st + offset
            in if adjustedStart < 0 \<or> adjustedEnd < 0 then
                 check_swears U offset text rest
                   (st\<lparr>logged := logged st @ [warning offset (currentStart st) (currentEnd st)]\<rparr>)
               else st\<lparr>segments := segments st @ [\<lparr>Start = adjustedStart, End = adjustedEnd\<rparr>]\<rparr>)
         else check_swears U offset text rest st)"

text \<open>The loop over the swears after the last line: it stops after the first match.\<close>

fun check_swears_last :: "unicode_lib \<Rightarrow> real \<Rightarrow> string \<Rightarrow> string list \<Rightarrow> scanner_state \<Rightarrow> scanner_state" where
  "check_swears_last U offset text [] st = st"
| "check_swears_last U offset text (swear # rest) st =
     (let lowerSwear = ToLower U swear
      in if Contains text lowerSwear then
           (let adjustedStart = currentStart st + offset;
                adjustedEnd = currentEnd st + offset
            in if adjustedStart \<ge> 0 \<and> adjustedEnd \<ge> 0 then
                 st\<lparr>segments := segments st @ [\<lparr>Start = adjustedStart, End = adjustedEnd\<rparr>]\<rparr>
               else st\<lparr>logged := logged st @ [warning offset (currentStart st) (currentEnd st)]\<rparr>)
         else check_swears_last U offset text rest st)"

text \<open>The body of the loop over the lines.\<close>

definition scan_line :: "unicode_lib \<Rightarrow> string list \<Rightarrow> real \<Rightarrow> scanner_state \<Rightarrow> string \<Rightarrow> error + scanner_state" where
  "scan_line U swears offset st raw =
     (let line = TrimSpace U raw
      in if line = [] then
           (if inSubtitleBlock st then
              Inr ((check_swears U offset (ToLower U (subtitleText st)) swears st)
                     \<lparr>inSubtitleBlock := False, subtitleText := []\<rparr>)
            else Inr st)
         else if MatchString line \<and> \<not> inSubtitleBlock st then
           (case FindStringSubmatch line of
              None \<Rightarrow> Inr st
            | Some (m1, m2) \<Rightarrow>
                (case parseSRTTime m1 of
                   Inl err \<Rightarrow> Inl err
                 | Inr start \<Rightarrow>
                     (case parseSRTTime m2 of
                        Inl err \<Rightarrow> Inl err
                      | Inr end \<Rightarrow>
                          Inr (st\<lparr>currentStart := start, currentEnd := end,
                                  inSubtitleBlock := True\<rparr>))))
         else if inSubtitleBlock st then
           Inr (st\<lparr>subtitleText := subtitleText st @ line @ '' ''\<rparr>)
         else Inr st)"

fun scan_lines :: "unicode_lib \<Rightarrow> string list \<Rightarrow> real \<Rightarrow> scanner_state \<Rightarrow> string list \<Rightarrow> error option \<times> scanner_state" where
  "scan_lines U swears offset st [] = (None, st)"
| "scan_lines U swears offset st (raw # rest) =
     (case scan_line U swears offset st raw of
        Inl err \<Rightarrow> (Some err, st)
      | Inr st' \<Rightarrow> scan_lines U swears offset st' rest)"

text \<open>The last block, processed after the loop when the scanner is still inside it.\<close>

definition last_block :: "unicode_lib \<Rightarrow> string list \<Rightarrow> real \<Rightarrow> scanner_state \<Rightarrow> scanner_state" where
  "last_block U swears offset st =
     (if inSubtitleBlock st then
        check_swears_last U offset (ToLower U (subtitleText st)) swears st
      else st)"

text \<open>
  The subtitle file: it cannot be opened, or the scanner yields its lines, with or
  without an error of the scanner at the end. The result is the returned value and the
  messages logged by the call.
\<close>

datatype srt_file = CannotOpen | Opened "string list" bool

definition initial_state :: scanner_state where
  "initial_state = \<lparr>segments = [], currentStart = 0, currentEnd = 0,
     inSubtitleBlock = False, subtitleText = [], logged = []\<rparr>"

definition findSwearTimestamps :: "unicode_lib \<Rightarrow> srt_file \<Rightarrow> string list \<Rightarrow> real \<Rightarrow> (error + Segment list) \<times> string list" where
  "findSwearTimestamps U file swears offset =
     (case file of
        CannotOpen \<Rightarrow> (Inl FailedToOpenSRTFile, [])
      | Opened lines scanner_err \<Rightarrow>
          (case scan_lines U swears offset initial_state lines of
             (Some err, st) \<Rightarrow> (Inl err, logged st)
           | (None, st) \<Rightarrow>
               if scanner_err then (Inl ErrorReadingSRTFile, logged st)
               else (let st' = last_block U swears offset st
                     in (Inr (segments st'), logged st'))))"

text \<open>
  The fields of a string of the form \<open>HH:MM:SS,mmm\<close>, read as decimal numbers: the
  \<open>n\<close> bytes from position \<open>i\<close>.
\<close>

definition field :: "string \<Rightarrow> nat \<Rightarrow> nat \<Rightarrow> nat" where
  "field s i n = foldl (\<lambda>x c. x * 10 + digit_val c) 0 (take n (drop i s))"

text \<open>
  A state inside a block, for evaluating the model: the block
  \<open>00:00:05,000 --> 00:00:06,000\<close> with one line of text read so far.
\<close>

definition example_block :: scanner_state where
  "example_block = \<lparr>segments = [], currentStart = 5, currentEnd = 6,
     inSubtitleBlock = True, subtitleText = ''what the Fuck '', logged = []\<rparr>"

text \<open>
  The text that the scanner has accumulated after the lines of a block: every trimmed
  line followed by one space.
\<close>

definition block_text :: "unicode_lib \<Rightarrow> string list \<Rightarrow> string" where
  "block_text U body = concat (map (\<lambda>l. TrimSpace U l @ '' '') body)"

text \<open>
  Two states of the scanner agree up to the segments \<open>S\<close> and the messages \<open>L\<close> that
  the first one has collected before: they are in the same place of the same block.
  Outside a block the boundaries are not compared, since the next block sets them
  before they are read.
\<close>

definition agree :: "Segment list \<Rightarrow> string list \<Rightarrow> scanner_state \<Rightarrow> scanner_state \<Rightarrow> bool" where
  "agree S L a b =
     (segments a = S @ segments b \<and> logged a = L @ logged b \<and>
      inSubtitleBlock a = inSubtitleBlock b \<and> subtitleText a = subtitleText b \<and>
      (inSubtitleBlock b \<longrightarrow> currentStart a = currentStart b \<and> currentEnd a = currentEnd b))"

section \<open>Properties of the sort\<close>

lemma mset_sift: "mset (sift x p) = add_mset x (mset p)"
  by (induction p) auto

lemma set_sift: "set (sift x p) = insert x (set p)"
  by (induction p) auto

lemma sift_descending:
  "sorted_wrt (\<lambda>a b. Start b \<le> Start a) p \<Longrightarrow> sorted_wrt (\<lambda>a b. Start b \<le> Start a) (sift x p)"
  by (induction p) (auto simp: set_sift)

lemma foldl_sift_mset: "mset (foldl (\<lambda>p x. sift x p) q xs) = mset q + mset xs"
  by (induction xs arbitrary: q) (auto simp: mset_sift)

lemma foldl_sift_descending:
  "sorted_wrt (\<lambda>a b. Start b \<le> Start a) q \<Longrightarrow>
   sorted_wrt (\<lambda>a b. Start b \<le> Start a) (foldl (\<lambda>p x. sift x p) q xs)"
  by (induction xs arbitrary: q) (auto simp: sift_descending)

lemma mset_sort_Slice: "mset (sort_Slice xs) = mset xs"
  by (simp add: sort_Slice_def foldl_sift_mset)

lemma set_sort_Slice: "set (sort_Slice xs) = set xs"
  using mset_sort_Slice [of xs] by (metis set_mset_mset)

lemma sort_Slice_by_start: "by_start (sort_Slice xs)"
proof -
  have "sorted_wrt (\<lambda>a b. Start b \<le> Start a) (foldl (\<lambda>p x. sift x p) [] xs)"
    by (rule foldl_sift_descending) simp
  then show ?thesis
    by (simp add: by_start_def sort_Slice_def sorted_wrt_rev)
qed

lemma sort_Slice_sorted_id: "by_start xs \<Longrightarrow> sort_Slice xs = xs"
proof (induction xs rule: rev_induct)
  case Nil
  show ?case by (simp add: sort_Slice_def)
next
  case (snoc x xs)
  from snoc.prems have b: "by_start xs" and le: "\<forall>y \<in> set xs. Start y \<le> Start x"
    by (auto simp: by_start_def sorted_wrt_append)
  from snoc.IH [OF b] have f: "foldl (\<lambda>p x. sift x p) [] xs = rev xs"
    by (simp add: sort_Slice_def) (metis rev_rev_ident)
  have "sift x (rev xs) = x # rev xs"
  proof (cases "rev xs")
    case Nil
    then show ?thesis by simp
  next
    case (Cons y p)
    then have "y \<in> set xs" by (metis list.set_intros(1) set_rev)
    with le have "\<not> Start x < Start y" by auto
    with Cons show ?thesis by simp
  qed
  with f show ?case by (simp add: sort_Slice_def)
qed

section \<open>Properties of the sweep\<close>

lemma sweep_merged: "sweep c rest merged = merged @ sweep c rest []"
proof (induction rest arbitrary: c merged)
  case Nil
  show ?case by simp
next
  case (Cons s rest)
  show ?case
    using Cons.IH [of "c\<lparr>End := End s\<rparr>" merged] Cons.IH [of c merged]
      Cons.IH [of s "merged @ [c]"] Cons.IH [of s "[c]"]
    by simp
qed

lemma sweep_push: "\<not> Start s \<le> End c + 1 \<Longrightarrow> sweep c (s # rest) [] = c # sweep s rest []"
  using sweep_merged [of s rest "[c]"] by simp

lemma sweep_hd: "\<exists>e r. sweep c rest [] = c\<lparr>End := e\<rparr> # r"
proof (induction rest arbitrary: c)
  case Nil
  have "sweep c [] [] = c\<lparr>End := End c\<rparr> # []" by simp
  then show ?case by blast
next
  case (Cons s rest)
  show ?case
  proof (cases "Start s \<le> End c + 1")
    case True
    then show ?thesis
      using Cons.IH [of "c\<lparr>End := End s\<rparr>"] Cons.IH [of c] by auto
  next
    case False
    have "sweep c (s # rest) [] = c\<lparr>End := End c\<rparr> # sweep s rest []"
      using sweep_push [OF False] by simp
    then show ?thesis by blast
  qed
qed

lemma sweep_separated: "separated (sweep c rest [])"
proof (induction rest arbitrary: c)
  case Nil
  show ?case by simp
next
  case (Cons s rest)
  show ?case
  proof (cases "Start s \<le> End c + 1")
    case True
    then show ?thesis using Cons.IH by simp
  next
    case False
    obtain e r where h: "sweep s rest [] = s\<lparr>End := e\<rparr> # r"
      using sweep_hd by blast
    have "separated (s\<lparr>End := e\<rparr> # r)" using Cons.IH [of s] h by simp
    with False h show ?thesis unfolding sweep_push [OF False] by simp
  qed
qed

lemma sweep_well_formed: "well_formed (c # rest) \<Longrightarrow> well_formed (sweep c rest [])"
proof (induction rest arbitrary: c)
  case Nil
  then show ?case by (simp add: well_formed_def)
next
  case (Cons s rest)
  show ?case
  proof (cases "Start s \<le> End c + 1")
    case True
    have "well_formed (c\<lparr>End := End s\<rparr> # rest)" if "End s > End c"
      using Cons.prems that by (simp add: well_formed_def)
    moreover have "well_formed (c # rest)"
      using Cons.prems by (simp add: well_formed_def)
    ultimately show ?thesis using True Cons.IH by simp
  next
    case False
    have "well_formed (s # rest)" using Cons.prems by (simp add: well_formed_def)
    then have "well_formed (sweep s rest [])" by (rule Cons.IH)
    with Cons.prems show ?thesis
      unfolding sweep_push [OF False] by (simp add: well_formed_def)
  qed
qed

lemma sweep_starts: "Start ` set (sweep c rest []) \<subseteq> Start ` set (c # rest)"
proof (induction rest arbitrary: c)
  case Nil
  show ?case by simp
next
  case (Cons s rest)
  show ?case
  proof (cases "Start s \<le> End c + 1")
    case True
    then show ?thesis
      using Cons.IH [of "c\<lparr>End := End s\<rparr>"] Cons.IH [of c] by auto
  next
    case False
    show ?thesis unfolding sweep_push [OF False] using Cons.IH [of s] by auto
  qed
qed

lemma sweep_by_start: "by_start (c # rest) \<Longrightarrow> by_start (sweep c rest [])"
proof (induction rest arbitrary: c)
  case Nil
  show ?case by (simp add: by_start_def)
next
  case (Cons s rest)
  show ?case
  proof (cases "Start s \<le> End c + 1")
    case True
    have "by_start (c\<lparr>End := End s\<rparr> # rest)" "by_start (c # rest)"
      using Cons.prems by (auto simp: by_start_def)
    then show ?thesis using True Cons.IH by simp
  next
    case False
    have b: "by_start (s # rest)" using Cons.prems by (simp add: by_start_def)
    have le: "\<forall>y \<in> set (s # rest). Start c \<le> Start y"
      using Cons.prems by (auto simp: by_start_def)
    have "\<forall>y \<in> set (sweep s rest []). Start c \<le> Start y"
    proof
      fix y assume "y \<in> set (sweep s rest [])"
      then have "Start y \<in> Start ` set (s # rest)"
        using sweep_starts [of s rest] by blast
      then obtain z where "z \<in> set (s # rest)" "Start y = Start z" by blast
      with le show "Start c \<le> Start y" by auto
    qed
    with Cons.IH [OF b] show ?thesis
      unfolding sweep_push [OF False] by (simp add: by_start_def)
  qed
qed

lemma sweep_fixed: "separated (c # rest) \<Longrightarrow> sweep c rest [] = c # rest"
proof (induction rest arbitrary: c)
  case Nil
  show ?case by simp
next
  case (Cons s rest)
  from Cons.prems have gap: "\<not> Start s \<le> End c + 1" and sep: "separated (s # rest)"
    by auto
  show ?case unfolding sweep_push [OF gap] using Cons.IH [OF sep] by simp
qed

lemma separated_strict:
  "separated xs \<Longrightarrow> well_formed xs \<Longrightarrow> strictly_by_start xs"
proof (induction xs rule: separated.induct)
  case (1 a b r)
  then have s: "strictly_by_start (b # r)" and ab: "Start a < Start b"
    by (simp_all add: well_formed_def)
  then have "\<forall>y \<in> set r. Start a < Start y"
    by (auto simp: strictly_by_start_def)
  with s ab show ?case by (simp add: strictly_by_start_def)
qed (simp_all add: strictly_by_start_def)

lemma sort_Slice_Nil: "sort_Slice xs = [] \<longleftrightarrow> xs = []"
  using set_sort_Slice [of xs] by (metis set_empty)

lemma mergeSegments_snd:
  "snd (mergeSegments xs) = [] \<and> xs = [] \<or>
   (\<exists>c rest. sort_Slice xs = c # rest \<and> snd (mergeSegments xs) = sweep c rest [])"
proof (cases xs)
  case Nil
  then show ?thesis by (simp add: mergeSegments_def)
next
  case (Cons x xs')
  then have "sort_Slice xs \<noteq> []" by (simp add: sort_Slice_Nil)
  then obtain c rest where "sort_Slice xs = c # rest" by (cases "sort_Slice xs") auto
  with Cons show ?thesis by (simp add: mergeSegments_def)
qed

lemma mergeSegments_fst:
  "fst (mergeSegments xs) = sort_Slice xs"
proof (cases xs)
  case Nil
  then show ?thesis by (simp add: mergeSegments_def sort_Slice_def)
next
  case (Cons x xs')
  then have "sort_Slice xs \<noteq> []" by (simp add: sort_Slice_Nil)
  then obtain c rest where "sort_Slice xs = c # rest" by (cases "sort_Slice xs") auto
  with Cons show ?thesis by (simp add: mergeSegments_def)
qed

lemma mergeSegments_separated: "separated (snd (mergeSegments xs))"
  using mergeSegments_snd [of xs] sweep_separated by auto

lemma mergeSegments_by_start: "by_start (snd (mergeSegments xs))"
proof -
  from mergeSegments_snd [of xs] show ?thesis
  proof
    assume "snd (mergeSegments xs) = [] \<and> xs = []"
    then have "snd (mergeSegments xs) = []" by blast
    then show ?thesis by (simp add: by_start_def)
  next
    assume "\<exists>c rest. sort_Slice xs = c # rest \<and> snd (mergeSegments xs) = sweep c rest []"
    then obtain c rest where h: "sort_Slice xs = c # rest"
      "snd (mergeSegments xs) = sweep c rest []" by blast
    have "by_start (c # rest)" using sort_Slice_by_start [of xs] h by simp
    then show ?thesis using h sweep_by_start by simp
  qed
qed

lemma mergeSegments_well_formed:
  assumes "well_formed xs"
  shows "well_formed (snd (mergeSegments xs))"
proof -
  from mergeSegments_snd [of xs] show ?thesis
  proof
    assume "snd (mergeSegments xs) = [] \<and> xs = []"
    then have "snd (mergeSegments xs) = []" by blast
    then show ?thesis by (simp add: well_formed_def)
  next
    assume "\<exists>c rest. sort_Slice xs = c # rest \<and> snd (mergeSegments xs) = sweep c rest []"
    then obtain c rest where h: "sort_Slice xs = c # rest"
      "snd (mergeSegments xs) = sweep c rest []" by blast
    have "set (c # rest) = set xs" using set_sort_Slice [of xs] h by simp
    with assms have "well_formed (c # rest)"
      unfolding well_formed_def list_all_iff by blast
    then show ?thesis using h sweep_well_formed by simp
  qed
qed

lemma merge_example:
  "snd (mergeSegments [\<lparr>Start = 1, End = 2\<rparr>, \<lparr>Start = 5 / 2, End = 3\<rparr>, \<lparr>Start = 10, End = 11\<rparr>])
   = [\<lparr>Start = 1, End = 3\<rparr>, \<lparr>Start = 10, End = 11\<rparr>]"
  by (simp add: mergeSegments_def sort_Slice_def)

text \<open>
  Claim C4, as amended. For every input, consecutive intervals \<open>(a, b)\<close> of the
  merger's output satisfy \<open>b.start > a.end + 1\<close>, and the empty input gives the empty
  output. When every input interval has \<open>start \<le> end\<close>, every output interval has
  \<open>start \<le> end\<close> and the output is strictly ordered by start.
\<close>

theorem mergeSegments_output:
  "separated (snd (mergeSegments xs)) \<and> snd (mergeSegments []) = [] \<and>
   (well_formed xs \<longrightarrow>
      well_formed (snd (mergeSegments xs)) \<and> strictly_by_start (snd (mergeSegments xs)))"
proof -
  have "snd (mergeSegments []) = []" by (simp add: mergeSegments_def)
  moreover have "strictly_by_start (snd (mergeSegments xs))" if "well_formed xs"
    using separated_strict [OF mergeSegments_separated mergeSegments_well_formed [OF that]] .
  ultimately show ?thesis
    using mergeSegments_separated mergeSegments_well_formed by blast
qed

theorem mergeSegments_output_witness:
  "well_formed [\<lparr>Start = 1, End = 2\<rparr>, \<lparr>Start = 5 / 2, End = 3\<rparr>, \<lparr>Start = 10, End = 11\<rparr>] \<and>
   separated [\<lparr>Start = 1, End = 3\<rparr>, \<lparr>Start = 10, End = 11\<rparr>] \<and>
   well_formed [\<lparr>Start = 1, End = 3\<rparr>, \<lparr>Start = 10, End = 11\<rparr>] \<and>
   strictly_by_start [\<lparr>Start = 1, End = 3\<rparr>, \<lparr>Start = 10, End = 11\<rparr>]"
proof -
  have wf: "well_formed [\<lparr>Start = 1, End = 2\<rparr>, \<lparr>Start = 5 / 2, End = 3\<rparr>, \<lparr>Start = 10, End = 11\<rparr>]"
    by (simp add: well_formed_def)
  show ?thesis
    using wf mergeSegments_output
      [of "[\<lparr>Start = 1, End = 2\<rparr>, \<lparr>Start = 5 / 2, End = 3\<rparr>, \<lparr>Start = 10, End = 11\<rparr>]"]
    unfolding merge_example by blast
qed

text \<open>
  Claim C4 as stated, with no precondition on the input, fails: an input interval whose
  end is before its start comes out of the merger unchanged, and two such intervals with
  the same start both stay in the output.
\<close>

theorem mergeSegments_output_counterexample:
  "snd (mergeSegments [\<lparr>Start = 2, End = 3\<rparr>, \<lparr>Start = 10, End = 0\<rparr>])
     = [\<lparr>Start = 2, End = 3\<rparr>, \<lparr>Start = 10, End = 0\<rparr>] \<and>
   \<not> Start \<lparr>Start = 10, End = 0\<rparr> \<le> End \<lparr>Start = 10, End = 0\<rparr> \<and>
   snd (mergeSegments [\<lparr>Start = 10, End = 0\<rparr>, \<lparr>Start = 10, End = 0\<rparr>])
     = [\<lparr>Start = 10, End = 0\<rparr>, \<lparr>Start = 10, End = 0\<rparr>] \<and>
   \<not> Start \<lparr>Start = 10, End = 0\<rparr> < Start \<lparr>Start = 10, End = 0\<rparr>"
  by (simp add: mergeSegments_def sort_Slice_def)

text \<open>
  Claim C6. The merger is idempotent: merging the merger's own output returns that
  output unchanged.
\<close>

theorem mergeSegments_idempotent:
  "snd (mergeSegments (snd (mergeSegments s))) = snd (mergeSegments s)"
proof (cases "snd (mergeSegments s)")
  case Nil
  then show ?thesis by (simp add: mergeSegments_def)
next
  case (Cons c rest)
  have sep: "separated (c # rest)" using mergeSegments_separated [of s] Cons by simp
  have "by_start (c # rest)" using mergeSegments_by_start [of s] Cons by simp
  then have "sort_Slice (c # rest) = c # rest" by (rule sort_Slice_sorted_id)
  then have "snd (mergeSegments (c # rest)) = sweep c rest []"
    by (simp add: mergeSegments_def)
  with sweep_fixed [OF sep] Cons show ?thesis by simp
qed

text \<open>
  Claim C10, as amended. The merger sorts the caller's slice in place: after the call the
  slice holds the same intervals, in ascending order of start; a slice that is already in
  ascending order of start is left as it was.
\<close>

theorem mergeSegments_argument:
  "mset (fst (mergeSegments xs)) = mset xs \<and> by_start (fst (mergeSegments xs)) \<and>
   (by_start xs \<longrightarrow> fst (mergeSegments xs) = xs)"
  by (simp add: mergeSegments_fst mset_sort_Slice sort_Slice_by_start sort_Slice_sorted_id)

theorem mergeSegments_argument_witness:
  "by_start [\<lparr>Start = 1, End = 2\<rparr>, \<lparr>Start = 10, End = 11\<rparr>] \<and>
   fst (mergeSegments [\<lparr>Start = 1, End = 2\<rparr>, \<lparr>Start = 10, End = 11\<rparr>])
     = [\<lparr>Start = 1, End = 2\<rparr>, \<lparr>Start = 10, End = 11\<rparr>]"
proof -
  have b: "by_start [\<lparr>Start = 1, End = 2\<rparr>, \<lparr>Start = 10, End = 11\<rparr>]"
    by (simp add: by_start_def)
  show ?thesis
    using b mergeSegments_argument [of "[\<lparr>Start = 1, End = 2\<rparr>, \<lparr>Start = 10, End = 11\<rparr>]"]
    by blast
qed

text \<open>
  Claim C10 as stated fails: the caller's slice is reordered by the call.
\<close>

theorem mergeSegments_argument_counterexample:
  "fst (mergeSegments [\<lparr>Start = 10, End = 11\<rparr>, \<lparr>Start = 1, End = 2\<rparr>])
     = [\<lparr>Start = 1, End = 2\<rparr>, \<lparr>Start = 10, End = 11\<rparr>] \<and>
   [\<lparr>Start = 1, End = 2\<rparr>, \<lparr>Start = 10, End = 11\<rparr>]
     \<noteq> [\<lparr>Start = 10, End = 11\<rparr>, \<lparr>Start = 1, End = 2\<rparr>]"
  by (simp add: mergeSegments_def sort_Slice_def)

section \<open>Properties of the directive generator\<close>

lemma escape_plain: "plain_char c \<Longrightarrow> escape_ascii c = [c]"
  by (simp add: plain_char_def escape_ascii_def)

lemma plain_ascii: "plain_char c \<Longrightarrow> is_ascii c"
  by (simp add: plain_char_def is_ascii_def)

lemma concat_escape_plain: "plain s \<Longrightarrow> concat (map escape_ascii s) = s"
  by (induction s) (simp_all add: plain_def escape_plain)

lemma Quote_plain: "plain s \<Longrightarrow> Quote U s = [dq] @ s @ [dq]"
proof -
  assume p: "plain s"
  then have "list_all is_ascii s"
    unfolding plain_def list_all_iff using plain_ascii by blast
  with p show ?thesis by (simp add: Quote_def concat_escape_plain)
qed

lemma plain_append: "plain (a @ b) \<longleftrightarrow> plain a \<and> plain b"
  by (simp add: plain_def)

lemma isDigit_digit_char: "isDigit (digit_char d)"
proof -
  have "d mod 10 < length ''0123456789''" by simp
  then have "''0123456789'' ! (d mod 10) \<in> set ''0123456789''" by (rule nth_mem)
  then show ?thesis unfolding isDigit_def digit_char_def .
qed

lemma isDigit_plain: "isDigit c \<Longrightarrow> plain_char c"
  by (auto simp: isDigit_def plain_char_def dq_def backslash_def)

lemma decimal_digits: "list_all isDigit (decimal n)"
proof (induction n rule: decimal.induct)
  case (1 n)
  show ?case
  proof (cases "n < 10")
    case True
    then show ?thesis by (subst decimal.simps) (simp add: isDigit_digit_char)
  next
    case False
    with 1 show ?thesis by (subst decimal.simps) (simp add: isDigit_digit_char)
  qed
qed

lemma decimal_not_Nil: "decimal n \<noteq> []"
  by (subst decimal.simps) simp

lemma decimal_padded_digits: "list_all isDigit (decimal_padded p n)"
  by (induction p arbitrary: n) (simp_all add: isDigit_digit_char)

lemma length_decimal_padded: "length (decimal_padded p n) = p"
  by (induction p arbitrary: n) simp_all

lemma digits_plain: "list_all isDigit s \<Longrightarrow> plain s"
  unfolding plain_def list_all_iff using isDigit_plain by blast

lemma fmt_f_plain: "plain (fmt_f p x)"
proof -
  have m: "plain ''-''" and d: "plain ''.''"
    by (simp_all add: plain_def plain_char_def dq_def backslash_def)
  show ?thesis
    unfolding fmt_f_def Let_def
    using m d digits_plain [OF decimal_digits] digits_plain [OF decimal_padded_digits]
    by (simp add: plain_append plain_def)
qed

lemma starts_with_single: "starts_with s [c] = (s \<noteq> [] \<and> hd s = c)"
  by (cases s) auto

lemma has_decimals_body:
  assumes "list_all isDigit a" "a \<noteq> []" "list_all isDigit b" "length b = p"
  shows "has_decimals p (a @ ''.'' @ b)" and "has_decimals p (''-'' @ a @ ''.'' @ b)"
proof -
  from assms(1,2) have "isDigit (hd a)" by (cases a) auto
  then have "hd a \<noteq> CHR ''-''" by (auto simp: isDigit_def)
  with assms(2) have ns: "\<not> starts_with (a @ ''.'' @ b) ''-''"
    by (simp add: starts_with_single)
  have len: "length (a @ ''.'' @ b) - p - 1 = length a" "length (a @ ''.'' @ b) - p = length a + 1"
    using assms(4) by simp_all
  have body: "p + 2 \<le> length (a @ ''.'' @ b) \<and>
      list_all isDigit (take (length (a @ ''.'' @ b) - p - 1) (a @ ''.'' @ b)) \<and>
      (a @ ''.'' @ b) ! (length (a @ ''.'' @ b) - p - 1) = CHR ''.'' \<and>
      list_all isDigit (drop (length (a @ ''.'' @ b) - p) (a @ ''.'' @ b))"
    unfolding len using assms by (cases a) (simp_all add: nth_append)
  show "has_decimals p (a @ ''.'' @ b)"
    unfolding has_decimals_def Let_def using ns body by simp
  have "starts_with (''-'' @ a @ ''.'' @ b) ''-''" by simp
  then show "has_decimals p (''-'' @ a @ ''.'' @ b)"
    unfolding has_decimals_def Let_def using body by simp
qed

lemma fmt_f_has_decimals:
  assumes "0 < p"
  shows "has_decimals p (fmt_f p x)"
proof -
  define a where "a = decimal (round_half_even (\<bar>x\<bar> * 10 ^ p) div 10 ^ p)"
  define b where "b = decimal_padded p (round_half_even (\<bar>x\<bar> * 10 ^ p) mod 10 ^ p)"
  have a: "list_all isDigit a" "a \<noteq> []"
    unfolding a_def by (rule decimal_digits, rule decimal_not_Nil)
  have b: "list_all isDigit b" "length b = p"
    unfolding b_def by (rule decimal_padded_digits, rule length_decimal_padded)
  have eq: "fmt_f p x = (if x < 0 then ''-'' @ a @ ''.'' @ b else a @ ''.'' @ b)"
    using assms unfolding fmt_f_def Let_def a_def b_def by simp
  show ?thesis
  proof (cases "x < 0")
    case True
    then have "fmt_f p x = ''-'' @ a @ ''.'' @ b" using eq by simp
    then show ?thesis using has_decimals_body(2) [OF a b] by simp
  next
    case False
    then have "fmt_f p x = a @ ''.'' @ b" using eq by simp
    then show ?thesis using has_decimals_body(1) [OF a b] by simp
  qed
qed

lemma plain_appendI: "plain a \<Longrightarrow> plain b \<Longrightarrow> plain (a @ b)"
  by (simp add: plain_def)

lemma between_plain: "plain (between seg)"
proof -
  have "plain ''between(t,''" "plain '',''" "plain '')''"
    by (simp_all add: plain_def plain_char_def dq_def backslash_def)
  then show ?thesis
    unfolding between_def by (intro plain_appendI fmt_f_plain)
qed

lemma Join_plain: "list_all plain xs \<Longrightarrow> plain sep \<Longrightarrow> plain (Join xs sep)"
  by (induction xs sep rule: Join.induct) (simp_all add: plain_append, simp add: plain_def)

lemma filter_plain:
  "plain (''volume=enable='' @ [sq] @ Join (map between segs) ''+'' @ [sq] @ '':volume=0'')"
proof -
  have "list_all plain (map between segs)"
    by (simp add: list_all_iff between_plain)
  moreover have "plain ''+''" by (simp add: plain_def plain_char_def dq_def backslash_def)
  ultimately have j: "plain (Join (map between segs) ''+'')" by (rule Join_plain)
  have "plain ''volume=enable=''" "plain [sq]" "plain '':volume=0''"
    by (simp_all add: plain_def plain_char_def dq_def backslash_def sq_def)
  with j show ?thesis by (intro plain_appendI)
qed

text \<open>
  Claim C2, as amended. For a non-empty interval list the generator returns the filtered
  command of the fixed shape: the enable expression is the predicates
  \<open>between(t,start,end)\<close> of the intervals in the given order, joined by \<open>+\<close>, each
  boundary printed with exactly three decimals. The identifiers are printed by
  \<^verbatim>\<open>%q\<close>: between double quotes, and as they are when they are plain. The generator
  is a function of its arguments, so equal arguments give the same string.
\<close>

theorem generateFFmpegCommand_filtered:
  assumes "segs \<noteq> []"
  shows "generateFFmpegCommand U inputVideo outputVideo segs =
           ''ffmpeg -i '' @ Quote U inputVideo @ '' -af '' @
           [dq] @ ''volume=enable='' @ [sq] @ Join (map between segs) ''+'' @ [sq] @
           '':volume=0'' @ [dq] @ '' -c:v copy -c:a aac '' @ Quote U outputVideo \<and>
         (\<forall>seg \<in> set segs.
            between seg =
              ''between(t,'' @ fmt_f 3 (Start seg) @ '','' @ fmt_f 3 (End seg) @ '')'' \<and>
            has_decimals 3 (fmt_f 3 (Start seg)) \<and> has_decimals 3 (fmt_f 3 (End seg))) \<and>
         (plain inputVideo \<longrightarrow> Quote U inputVideo = [dq] @ inputVideo @ [dq]) \<and>
         (plain outputVideo \<longrightarrow> Quote U outputVideo = [dq] @ outputVideo @ [dq])"
proof -
  have "Quote U (''volume=enable='' @ [sq] @ Join (map between segs) ''+'' @ [sq] @ '':volume=0'')
      = [dq] @ (''volume=enable='' @ [sq] @ Join (map between segs) ''+'' @ [sq] @ '':volume=0'') @ [dq]"
    using filter_plain by (rule Quote_plain)
  with assms have "generateFFmpegCommand U inputVideo outputVideo segs =
           ''ffmpeg -i '' @ Quote U inputVideo @ '' -af '' @
           [dq] @ ''volume=enable='' @ [sq] @ Join (map between segs) ''+'' @ [sq] @
           '':volume=0'' @ [dq] @ '' -c:v copy -c:a aac '' @ Quote U outputVideo"
    by (simp add: generateFFmpegCommand_def Let_def)
  moreover have "has_decimals 3 (fmt_f 3 x)" for x
    by (rule fmt_f_has_decimals) simp
  ultimately show ?thesis
    by (simp add: between_def Quote_plain)
qed

theorem generateFFmpegCommand_filtered_witness:
  "[\<lparr>Start = 1, End = 2\<rparr>, \<lparr>Start = 9 / 2, End = 11 / 2\<rparr>] \<noteq> [] \<and>
   plain ''in.mp4'' \<and> plain ''out.mp4'' \<and>
   generateFFmpegCommand ascii_only ''in.mp4'' ''out.mp4''
       [\<lparr>Start = 1, End = 2\<rparr>, \<lparr>Start = 9 / 2, End = 11 / 2\<rparr>] =
     ''ffmpeg -i '' @ [dq] @ ''in.mp4'' @ [dq] @ '' -af '' @ [dq] @ ''volume=enable='' @ [sq] @
     ''between(t,1.000,2.000)+between(t,4.500,5.500)'' @ [sq] @ '':volume=0'' @ [dq] @
     '' -c:v copy -c:a aac '' @ [dq] @ ''out.mp4'' @ [dq] \<and>
   has_decimals 3 (fmt_f 3 (9 / 2))"
proof -
  have ne: "[\<lparr>Start = 1, End = 2\<rparr>, \<lparr>Start = 9 / 2, End = 11 / 2\<rparr>] \<noteq> []" by simp
  have j: "Join (map between [\<lparr>Start = 1, End = 2\<rparr>, \<lparr>Start = 9 / 2, End = 11 / 2\<rparr>]) ''+''
      = ''between(t,1.000,2.000)+between(t,4.500,5.500)''"
    by code_simp
  have p: "plain ''in.mp4''" "plain ''out.mp4''" by code_simp+
  show ?thesis
    using generateFFmpegCommand_filtered [OF ne, of ascii_only "''in.mp4''" "''out.mp4''"] p
    unfolding j by simp
qed

text \<open>
  Claim C2 as stated fails: an identifier that holds a double quote is not embedded as
  it is between the double quotes of the fixed shape; its quotes are escaped.
\<close>

theorem generateFFmpegCommand_filtered_counterexample:
  "generateFFmpegCommand ascii_only (''my '' @ [dq] @ ''cut'' @ [dq] @ ''.mp4'') ''out.mp4''
       [\<lparr>Start = 1, End = 2\<rparr>] =
     ''ffmpeg -i '' @ [dq] @ ''my '' @ [backslash, dq] @ ''cut'' @ [backslash, dq] @ ''.mp4'' @ [dq] @
     '' -af '' @ [dq] @ ''volume=enable='' @ [sq] @ ''between(t,1.000,2.000)'' @ [sq] @
     '':volume=0'' @ [dq] @ '' -c:v copy -c:a aac '' @ [dq] @ ''out.mp4'' @ [dq] \<and>
   generateFFmpegCommand ascii_only (''my '' @ [dq] @ ''cut'' @ [dq] @ ''.mp4'') ''out.mp4''
       [\<lparr>Start = 1, End = 2\<rparr>] \<noteq>
     ''ffmpeg -i '' @ [dq] @ (''my '' @ [dq] @ ''cut'' @ [dq] @ ''.mp4'') @ [dq] @
     '' -af '' @ [dq] @ ''volume=enable='' @ [sq] @ ''between(t,1.000,2.000)'' @ [sq] @
     '':volume=0'' @ [dq] @ '' -c:v copy -c:a aac '' @ [dq] @ ''out.mp4'' @ [dq]"
  by code_simp

text \<open>
  Claim C1, as amended. For an empty interval list the generator returns the sentence
  \<open>No segments to mute. Copying input to output: \<close> followed by the copy-only command,
  the identifiers printed by \<^verbatim>\<open>%q\<close>: between double quotes, and as they are when
  they are plain.
\<close>

theorem generateFFmpegCommand_copy_only:
  "generateFFmpegCommand U inputVideo outputVideo [] =
     ''No segments to mute. Copying input to output: ffmpeg -i '' @ Quote U inputVideo @
     '' -c copy '' @ Quote U outputVideo \<and>
   (plain inputVideo \<longrightarrow> Quote U inputVideo = [dq] @ inputVideo @ [dq]) \<and>
   (plain outputVideo \<longrightarrow> Quote U outputVideo = [dq] @ outputVideo @ [dq])"
  by (simp add: generateFFmpegCommand_def Quote_plain)

theorem generateFFmpegCommand_copy_only_witness:
  "plain ''in.mp4'' \<and> plain ''out.mp4'' \<and>
   generateFFmpegCommand ascii_only ''in.mp4'' ''out.mp4'' [] =
     ''No segments to mute. Copying input to output: ffmpeg -i '' @ [dq] @ ''in.mp4'' @ [dq] @
     '' -c copy '' @ [dq] @ ''out.mp4'' @ [dq]"
proof -
  have p: "plain ''in.mp4''" "plain ''out.mp4''" by code_simp+
  show ?thesis
    using generateFFmpegCommand_copy_only [of ascii_only "''in.mp4''" "''out.mp4''"] p
    by simp
qed

text \<open>
  Claim C1 as stated fails: the returned string is not the bare command, and an
  identifier that holds a double quote is not embedded as it is.
\<close>

theorem generateFFmpegCommand_copy_only_counterexample:
  "generateFFmpegCommand ascii_only ''in.mp4'' ''out.mp4'' [] \<noteq>
     ''ffmpeg -i '' @ [dq] @ ''in.mp4'' @ [dq] @ '' -c copy '' @ [dq] @ ''out.mp4'' @ [dq] \<and>
   generateFFmpegCommand ascii_only (''my '' @ [dq] @ ''cut'' @ [dq] @ ''.mp4'') ''out.mp4'' [] =
     ''No segments to mute. Copying input to output: ffmpeg -i '' @
     [dq] @ ''my '' @ [backslash, dq] @ ''cut'' @ [backslash, dq] @ ''.mp4'' @ [dq] @
     '' -c copy '' @ [dq] @ ''out.mp4'' @ [dq]"
  by code_simp

text \<open>
  Claim C7 at an output identifier that holds a closing parenthesis: the text that
  \<^verbatim>\<open>getVolumeFilter\<close> cuts out of the command runs on to the last parenthesis of the
  output identifier, and is not the enable expression that the generator joined.
\<close>

theorem getVolumeFilter_parenthesis_in_output:
  "getVolumeFilter (generateFFmpegCommand ascii_only ''in.mp4'' ''out (1).mp4''
       [\<lparr>Start = 1, End = 2\<rparr>]) =
     Inr (''between(t,1.000,2.000)'' @ [sq] @ '':volume=0'' @ [dq] @
          '' -c:v copy -c:a aac '' @ [dq] @ ''out (1)'') \<and>
   Join (map between [\<lparr>Start = 1, End = 2\<rparr>]) ''+'' = ''between(t,1.000,2.000)''"
  by code_simp

lemma getVolumeFilter_plain_example:
  "getVolumeFilter (generateFFmpegCommand ascii_only ''in.mp4'' ''out.mp4''
       [\<lparr>Start = 1, End = 2\<rparr>, \<lparr>Start = 9 / 2, End = 11 / 2\<rparr>]) =
     Inr (Join (map between [\<lparr>Start = 1, End = 2\<rparr>, \<lparr>Start = 9 / 2, End = 11 / 2\<rparr>]) ''+'')"
  by code_simp

section \<open>Properties of the timestamp converter\<close>

lemma isDigit_not_punct:
  "isDigit c \<Longrightarrow> c \<noteq> CHR '','' \<and> c \<noteq> CHR ''-'' \<and> c \<noteq> CHR ''+'' \<and> c \<noteq> CHR '':''"
  by (auto simp: isDigit_def)

lemma has_shape_Cons:
  "has_shape (p # ps) s =
     (case s of [] \<Rightarrow> False
      | c # cs \<Rightarrow> (if p = CHR ''d'' then isDigit c else c = p) \<and> has_shape ps cs)"
  by (cases s) (simp_all add: has_shape_def)

lemma has_shape_Nil: "has_shape [] s = (s = [])"
  by (simp add: has_shape_def)

lemma srt_timestamp_chars:
  assumes "srt_timestamp s"
  obtains h1 h2 m1 m2 s1 s2 f1 f2 f3 where
    "s = [h1, h2, CHR '':'', m1, m2, CHR '':'', s1, s2, CHR '','', f1, f2, f3]"
    "isDigit h1" "isDigit h2" "isDigit m1" "isDigit m2" "isDigit s1" "isDigit s2"
    "isDigit f1" "isDigit f2" "isDigit f3"
proof -
  from assms have "has_shape ''dd:dd:dd,ddd'' s" by (simp add: srt_timestamp_def)
  then have "\<exists>h1 h2 m1 m2 s1 s2 f1 f2 f3.
     s = [h1, h2, CHR '':'', m1, m2, CHR '':'', s1, s2, CHR '','', f1, f2, f3] \<and>
    isDigit h1 \<and> isDigit h2 \<and> isDigit m1 \<and> isDigit m2 \<and> isDigit s1 \<and> isDigit s2 \<and>
    isDigit f1 \<and> isDigit f2 \<and> isDigit f3"
    by (simp add: has_shape_Cons has_shape_Nil split: list.splits)
  then show ?thesis using that by blast
qed

lemma replace_first_comma_timestamp:
  assumes "isDigit h1" "isDigit h2" "isDigit m1" "isDigit m2" "isDigit s1" "isDigit s2"
  shows "replace_first_comma [h1, h2, CHR '':'', m1, m2, CHR '':'', s1, s2, CHR '','', f1, f2, f3]
         = [h1, h2, CHR '':'', m1, m2, CHR '':'', s1, s2, CHR ''.'', f1, f2, f3]"
  using assms by (simp add: isDigit_not_punct)

lemma atoi_digits3:
  assumes "isDigit f1" "isDigit f2" "isDigit f3"
  shows "atoi [f1, f2, f3] = Some (int ((digit_val f1 * 10 + digit_val f2) * 10 + digit_val f3))"
  using assms by (simp add: atoi_def isDigit_not_punct)

lemma parseNanoseconds_digits3:
  assumes "isDigit f1" "isDigit f2" "isDigit f3"
  shows "parseNanoseconds [CHR ''.'', f1, f2, f3] 4
         = Some (((digit_val f1 * 10 + digit_val f2) * 10 + digit_val f3) * 1000000)"
  using atoi_digits3 [OF assms] by (simp add: parseNanoseconds_def)

lemma time_Parse_clock_timestamp:
  assumes "isDigit h1" "isDigit h2" "isDigit m1" "isDigit m2" "isDigit s1" "isDigit s2"
    "isDigit f1" "isDigit f2" "isDigit f3"
  shows "time_Parse_clock [h1, h2, CHR '':'', m1, m2, CHR '':'', s1, s2, CHR ''.'', f1, f2, f3]
         = (if digit_val h1 * 10 + digit_val h2 < 24 \<and> digit_val m1 * 10 + digit_val m2 < 60 \<and>
               digit_val s1 * 10 + digit_val s2 < 60
            then Some (digit_val h1 * 10 + digit_val h2, digit_val m1 * 10 + digit_val m2,
                       digit_val s1 * 10 + digit_val s2,
                       ((digit_val f1 * 10 + digit_val f2) * 10 + digit_val f3) * 1000000)
            else None)"
  using assms parseNanoseconds_digits3 [of f1 f2 f3]
  by (simp add: time_Parse_clock_def getnum_def skip_colon_def)

lemma field_timestamp:
  "field [h1, h2, c1, m1, m2, c2, s1, s2, c3, f1, f2, f3] 0 2 = digit_val h1 * 10 + digit_val h2"
  "field [h1, h2, c1, m1, m2, c2, s1, s2, c3, f1, f2, f3] 3 2 = digit_val m1 * 10 + digit_val m2"
  "field [h1, h2, c1, m1, m2, c2, s1, s2, c3, f1, f2, f3] 6 2 = digit_val s1 * 10 + digit_val s2"
  "field [h1, h2, c1, m1, m2, c2, s1, s2, c3, f1, f2, f3] 9 3
     = (digit_val f1 * 10 + digit_val f2) * 10 + digit_val f3"
  by (simp_all add: field_def)

lemma parseSRTTime_chars:
  assumes "isDigit h1" "isDigit h2" "isDigit m1" "isDigit m2" "isDigit s1" "isDigit s2"
    "isDigit f1" "isDigit f2" "isDigit f3"
  shows "parseSRTTime [h1, h2, CHR '':'', m1, m2, CHR '':'', s1, s2, CHR '','', f1, f2, f3]
         = (if digit_val h1 * 10 + digit_val h2 < 24 \<and> digit_val m1 * 10 + digit_val m2 < 60 \<and>
               digit_val s1 * 10 + digit_val s2 < 60
            then Inr (real ((digit_val h1 * 10 + digit_val h2) * 3600 +
                            (digit_val m1 * 10 + digit_val m2) * 60 +
                            (digit_val s1 * 10 + digit_val s2)) +
                      real ((digit_val f1 * 10 + digit_val f2) * 10 + digit_val f3) / 1000)
            else Inl (FailedToParseSRTTime
                   [h1, h2, CHR '':'', m1, m2, CHR '':'', s1, s2, CHR ''.'', f1, f2, f3]))"
proof -
  have r: "replace_first_comma [h1, h2, CHR '':'', m1, m2, CHR '':'', s1, s2, CHR '','', f1, f2, f3]
      = [h1, h2, CHR '':'', m1, m2, CHR '':'', s1, s2, CHR ''.'', f1, f2, f3]"
    using assms(1-6) by (rule replace_first_comma_timestamp)
  show ?thesis
    unfolding parseSRTTime_def Let_def r time_Parse_clock_timestamp [OF assms]
    by simp
qed

text \<open>
  What the converter does on a string of the form \<open>HH:MM:SS,mmm\<close>: it succeeds when
  \<open>HH\<close> is below 24 and \<open>MM\<close> and \<open>SS\<close> are below 60, with the value
  \<open>HH * 3600 + MM * 60 + SS + mmm / 1000\<close>, and it fails otherwise.
\<close>

lemma parseSRTTime_srt_timestamp:
  assumes "srt_timestamp s"
  shows "parseSRTTime s =
           (if field s 0 2 < 24 \<and> field s 3 2 < 60 \<and> field s 6 2 < 60
            then Inr (real (field s 0 2 * 3600 + field s 3 2 * 60 + field s 6 2) +
                      real (field s 9 3) / 1000)
            else Inl (FailedToParseSRTTime (replace_first_comma s)))"
proof (rule srt_timestamp_chars [OF assms])
  fix h1 h2 m1 m2 s1 s2 f1 f2 f3
  assume s: "s = [h1, h2, CHR '':'', m1, m2, CHR '':'', s1, s2, CHR '','', f1, f2, f3]"
    and d: "isDigit h1" "isDigit h2" "isDigit m1" "isDigit m2" "isDigit s1" "isDigit s2"
       "isDigit f1" "isDigit f2" "isDigit f3"
  have r: "replace_first_comma [h1, h2, CHR '':'', m1, m2, CHR '':'', s1, s2, CHR '','', f1, f2, f3]
      = [h1, h2, CHR '':'', m1, m2, CHR '':'', s1, s2, CHR ''.'', f1, f2, f3]"
    using d(1-6) by (rule replace_first_comma_timestamp)
  show ?thesis
    by (simp only: s field_timestamp r parseSRTTime_chars [OF d])
qed

lemma parseSRTTime_example:
  "srt_timestamp ''00:01:23,456'' \<and> parseSRTTime ''00:01:23,456'' = Inr (83456 / 1000)"
proof -
  have t: "srt_timestamp ''00:01:23,456''"
    by (simp add: srt_timestamp_def has_shape_def isDigit_def)
  have f: "field ''00:01:23,456'' 0 2 = 0" "field ''00:01:23,456'' 3 2 = 1"
    "field ''00:01:23,456'' 6 2 = 23" "field ''00:01:23,456'' 9 3 = 456"
    by (simp_all add: field_def digit_val_def)
  show ?thesis
    using t parseSRTTime_srt_timestamp [OF t] unfolding f by simp
qed

lemma example_hour_24:
  "TrimSpace ascii_only ''24:00:00,000 --> 24:00:01,000'' = ''24:00:00,000 --> 24:00:01,000''"
  "MatchString ''24:00:00,000 --> 24:00:01,000'' = True"
  "FindStringSubmatch ''24:00:00,000 --> 24:00:01,000'' = Some (''24:00:00,000'', ''24:00:01,000'')"
  by code_simp+

text \<open>
  Claim C3 at hour 24. The string \<open>24:00:00,000\<close> has the lexical form, and the claim
  gives 86400 seconds for it. The converter refuses it, because it reads the string as a
  time of day, and the extraction of a file with such a timestamp line stops with that
  error.
\<close>

theorem parseSRTTime_refuses_hour_24:
  "srt_timestamp ''24:00:00,000'' \<and>
   parseSRTTime ''24:00:00,000'' = Inl (FailedToParseSRTTime ''24:00:00.000'') \<and>
   findSwearTimestamps ascii_only
     (Opened [''24:00:00,000 --> 24:00:01,000'', ''hello'', ''''] False) [''fuck''] 0 =
     (Inl (FailedToParseSRTTime ''24:00:00.000''), [])"
proof -
  have a: "srt_timestamp ''24:00:00,000''"
    by (simp add: srt_timestamp_def has_shape_def isDigit_def)
  have b: "parseSRTTime ''24:00:00,000'' = Inl (FailedToParseSRTTime ''24:00:00.000'')"
    by (simp add: parseSRTTime_def time_Parse_clock_def getnum_def isDigit_def digit_val_def)
  have c: "scan_line ascii_only [''fuck''] 0 initial_state ''24:00:00,000 --> 24:00:01,000''
      = Inl (FailedToParseSRTTime ''24:00:00.000'')"
    unfolding scan_line_def example_hour_24 Let_def
    by (simp add: initial_state_def b)
  have "findSwearTimestamps ascii_only
     (Opened [''24:00:00,000 --> 24:00:01,000'', ''hello'', ''''] False) [''fuck''] 0 =
     (Inl (FailedToParseSRTTime ''24:00:00.000''), [])"
    unfolding findSwearTimestamps_def srt_file.case scan_lines.simps c
    by (simp add: initial_state_def)
  with a b show ?thesis by blast
qed

section \<open>Properties of the interval extractor\<close>

lemma check_swears_no_match:
  "\<forall>swear \<in> set swears. \<not> Contains text (ToLower U swear) \<Longrightarrow>
   check_swears U offset text swears st = st"
  by (induction swears) simp_all

lemma check_swears_last_no_match:
  "\<forall>swear \<in> set swears. \<not> Contains text (ToLower U swear) \<Longrightarrow>
   check_swears_last U offset text swears st = st"
  by (induction swears) simp_all

lemma check_swears_emit:
  assumes "\<exists>swear \<in> set swears. Contains text (ToLower U swear)"
    and "0 \<le> currentStart st + offset" "0 \<le> currentEnd st + offset"
  shows "check_swears U offset text swears st =
           st\<lparr>segments := segments st @
              [\<lparr>Start = currentStart st + offset, End = currentEnd st + offset\<rparr>]\<rparr>"
  using assms by (induction swears) (auto simp: Let_def)

lemma check_swears_last_emit:
  assumes "\<exists>swear \<in> set swears. Contains text (ToLower U swear)"
    and "0 \<le> currentStart st + offset" "0 \<le> currentEnd st + offset"
  shows "check_swears_last U offset text swears st =
           st\<lparr>segments := segments st @
              [\<lparr>Start = currentStart st + offset, End = currentEnd st + offset\<rparr>]\<rparr>"
  using assms by (induction swears) (auto simp: Let_def)

lemma check_swears_warn:
  assumes "currentStart st + offset < 0 \<or> currentEnd st + offset < 0"
  shows "check_swears U offset text swears st =
           st\<lparr>logged := logged st @
              replicate (length (filter (\<lambda>swear. Contains text (ToLower U swear)) swears))
                (warning offset (currentStart st) (currentEnd st))\<rparr>"
  using assms
proof (induction swears arbitrary: st)
  case Nil
  show ?case by simp
next
  case (Cons swear rest)
  show ?case
  proof (cases "Contains text (ToLower U swear)")
    case True
    let ?st = "st\<lparr>logged := logged st @ [warning offset (currentStart st) (currentEnd st)]\<rparr>"
    have neg: "currentStart ?st + offset < 0 \<or> currentEnd ?st + offset < 0"
      using Cons.prems by simp
    have "check_swears U offset text (swear # rest) st = check_swears U offset text rest ?st"
      using True Cons.prems by (auto simp: Let_def)
    also have "\<dots> = st\<lparr>logged := logged st @
              replicate (length (filter (\<lambda>swear. Contains text (ToLower U swear)) (swear # rest)))
                (warning offset (currentStart st) (currentEnd st))\<rparr>"
      unfolding Cons.IH [OF neg] using True by (simp add: replicate_app_Cons_same)
    finally show ?thesis .
  next
    case False
    then show ?thesis using Cons.IH [OF Cons.prems] by simp
  qed
qed

lemma check_swears_last_warn:
  assumes "\<exists>swear \<in> set swears. Contains text (ToLower U swear)"
    and "currentStart st + offset < 0 \<or> currentEnd st + offset < 0"
  shows "check_swears_last U offset text swears st =
           st\<lparr>logged := logged st @ [warning offset (currentStart st) (currentEnd st)]\<rparr>"
  using assms by (induction swears) (auto simp: Let_def)

lemma filter_match_pos:
  "\<exists>swear \<in> set swears. P swear \<Longrightarrow> 0 < length (filter P swears)"
  by (induction swears) auto

lemma segments_check_swears:
  "segments (check_swears U offset text swears st)
   = segments (check_swears_last U offset text swears st)"
proof (cases "\<exists>swear \<in> set swears. Contains text (ToLower U swear)")
  case False
  then show ?thesis by (simp add: check_swears_no_match check_swears_last_no_match)
next
  case True
  show ?thesis
  proof (cases "currentStart st + offset < 0 \<or> currentEnd st + offset < 0")
    case neg: True
    show ?thesis
      by (simp add: check_swears_warn [OF neg] check_swears_last_warn [OF True neg])
  next
    case False
    then have "0 \<le> currentStart st + offset" "0 \<le> currentEnd st + offset" by auto
    then show ?thesis
      by (simp add: check_swears_emit [OF True] check_swears_last_emit [OF True])
  qed
qed

lemma scan_lines_append:
  "scan_lines U swears offset st (a @ b) =
     (case scan_lines U swears offset st a of
        (Some err, st') \<Rightarrow> (Some err, st')
      | (None, st') \<Rightarrow> scan_lines U swears offset st' b)"
  by (induction a arbitrary: st) (simp_all split: sum.splits)

lemma scan_line_blank:
  "TrimSpace U raw = [] \<Longrightarrow>
   scan_line U swears offset st raw =
     (if inSubtitleBlock st then
        Inr ((check_swears U offset (ToLower U (subtitleText st)) swears st)
               \<lparr>inSubtitleBlock := False, subtitleText := []\<rparr>)
      else Inr st)"
  by (simp add: scan_line_def)

lemma inSubtitleBlock_check_swears:
  "inSubtitleBlock (check_swears U offset text swears st) = inSubtitleBlock st"
  by (induction swears arbitrary: st) (simp_all add: Let_def)

lemma MatchString_not_Nil: "MatchString line \<Longrightarrow> line \<noteq> []"
  by (auto simp: MatchString_def)

lemma example_lines:
  "TrimSpace ascii_only ''1'' = ''1''"
  "TrimSpace ascii_only ''00:00:05,000 --> 00:00:06,000'' = ''00:00:05,000 --> 00:00:06,000''"
  "TrimSpace ascii_only ''what the Fuck'' = ''what the Fuck''"
  "TrimSpace ascii_only '''' = ''''"
  "MatchString ''1'' = False"
  "MatchString ''00:00:05,000 --> 00:00:06,000'' = True"
  "MatchString ''what the Fuck'' = False"
  "FindStringSubmatch ''00:00:05,000 --> 00:00:06,000'' = Some (''00:00:05,000'', ''00:00:06,000'')"
  by code_simp+

lemma example_times:
  "parseSRTTime ''00:00:05,000'' = Inr 5" "parseSRTTime ''00:00:06,000'' = Inr 6"
  by (simp_all add: parseSRTTime_def time_Parse_clock_def getnum_def skip_colon_def
      parseNanoseconds_def atoi_def isDigit_def digit_val_def)

lemma example_scan:
  "scan_lines ascii_only swears offset initial_state
     [''1'', ''00:00:05,000 --> 00:00:06,000'', ''what the Fuck''] = (None, example_block)"
proof -
  let ?st = "initial_state\<lparr>currentStart := 5, currentEnd := 6, inSubtitleBlock := True\<rparr>"
  have s1: "scan_line ascii_only swears offset initial_state ''1'' = Inr initial_state"
    unfolding scan_line_def example_lines Let_def by (simp add: initial_state_def)
  have s2: "scan_line ascii_only swears offset initial_state ''00:00:05,000 --> 00:00:06,000''
      = Inr ?st"
    unfolding scan_line_def example_lines Let_def
    by (simp add: initial_state_def example_times)
  have s3: "scan_line ascii_only swears offset ?st ''what the Fuck'' = Inr example_block"
    unfolding scan_line_def example_lines Let_def
    by (simp add: initial_state_def example_block_def)
  show ?thesis
    by (simp only: scan_lines.simps s1 s2 s3 sum.case)
qed

lemma example_match:
  "Contains (ToLower ascii_only (subtitleText example_block)) (ToLower ascii_only ''fuck'')"
  by code_simp

lemma decimal_padded_numeral:
  "decimal_padded (numeral k) n = decimal_padded (pred_numeral k) (n div 10) @ [digit_char n]"
  using decimal_padded.simps(2) [of "pred_numeral k" n] by (simp only: numeral_eq_Suc)

lemma example_warning:
  "warning (- 10) 5 6 =
     ''Warning: Offset -10.000000 makes segment (5.000000, 6.000000) negative, skipping''"
  by (simp add: warning_def fmt_f_def round_half_even_def digit_char_def decimal_padded_numeral)

subsection \<open>The scan does not depend on what was collected before\<close>

lemma check_swears_closed:
  "check_swears U offset text swears st =
     st\<lparr>segments := segments st @
          (if (\<exists>swear \<in> set swears. Contains text (ToLower U swear)) \<and>
              0 \<le> currentStart st + offset \<and> 0 \<le> currentEnd st + offset
           then [\<lparr>Start = currentStart st + offset, End = currentEnd st + offset\<rparr>] else []),
        logged := logged st @
          (if currentStart st + offset < 0 \<or> currentEnd st + offset < 0
           then replicate (length (filter (\<lambda>swear. Contains text (ToLower U swear)) swears))
                  (warning offset (currentStart st) (currentEnd st))
           else [])\<rparr>"
proof (cases "currentStart st + offset < 0 \<or> currentEnd st + offset < 0")
  case True
  then show ?thesis by (auto simp: check_swears_warn [OF True])
next
  case False
  then have nn: "0 \<le> currentStart st + offset" "0 \<le> currentEnd st + offset" by auto
  show ?thesis
  proof (cases "\<exists>swear \<in> set swears. Contains text (ToLower U swear)")
    case True
    show ?thesis using False True nn by (simp add: check_swears_emit [OF True nn])
  next
    case no: False
    then have "check_swears U offset text swears st = st"
      by (simp add: check_swears_no_match)
    with False no show ?thesis by simp
  qed
qed

lemma check_swears_last_closed:
  "check_swears_last U offset text swears st =
     st\<lparr>segments := segments st @
          (if (\<exists>swear \<in> set swears. Contains text (ToLower U swear)) \<and>
              0 \<le> currentStart st + offset \<and> 0 \<le> currentEnd st + offset
           then [\<lparr>Start = currentStart st + offset, End = currentEnd st + offset\<rparr>] else []),
        logged := logged st @
          (if (\<exists>swear \<in> set swears. Contains text (ToLower U swear)) \<and>
              (currentStart st + offset < 0 \<or> currentEnd st + offset < 0)
           then [warning offset (currentStart st) (currentEnd st)] else [])\<rparr>"
proof (cases "\<exists>swear \<in> set swears. Contains text (ToLower U swear)")
  case no: False
  then have "check_swears_last U offset text swears st = st"
    by (simp add: check_swears_last_no_match)
  with no show ?thesis by simp
next
  case True
  show ?thesis
  proof (cases "currentStart st + offset < 0 \<or> currentEnd st + offset < 0")
    case neg: True
    show ?thesis using True neg by (auto simp: check_swears_last_warn [OF True neg])
  next
    case False
    then have nn: "0 \<le> currentStart st + offset" "0 \<le> currentEnd st + offset" by auto
    show ?thesis using True False nn by (simp add: check_swears_last_emit [OF True nn])
  qed
qed

lemma agree_check_swears:
  assumes "agree S L a b" "inSubtitleBlock b"
  shows "agree S L (check_swears U offset text swears a) (check_swears U offset text swears b)"
proof -
  from assms have c: "currentStart a = currentStart b" "currentEnd a = currentEnd b"
    by (simp_all add: agree_def)
  show ?thesis
    unfolding check_swears_closed [of _ _ _ _ a]
      check_swears_closed [of _ _ _ _ b] c
    using assms by (simp add: agree_def)
qed

lemma agree_check_swears_last:
  assumes "agree S L a b" "inSubtitleBlock b"
  shows "agree S L (check_swears_last U offset text swears a)
           (check_swears_last U offset text swears b)"
proof -
  from assms have c: "currentStart a = currentStart b" "currentEnd a = currentEnd b"
    by (simp_all add: agree_def)
  show ?thesis
    unfolding check_swears_last_closed [of _ _ _ _ a]
      check_swears_last_closed [of _ _ _ _ b] c
    using assms by (simp add: agree_def)
qed

lemma agree_scan_line:
  assumes "agree S L a b"
  shows "(\<exists>err. scan_line U swears offset a raw = Inl err \<and>
                scan_line U swears offset b raw = Inl err) \<or>
         (\<exists>a' b'. scan_line U swears offset a raw = Inr a' \<and>
                   scan_line U swears offset b raw = Inr b' \<and> agree S L a' b')"
proof -
  from assms have i: "inSubtitleBlock a = inSubtitleBlock b"
    and t: "subtitleText a = subtitleText b" by (simp_all add: agree_def)
  show ?thesis
  proof (cases "TrimSpace U raw = []")
    case True
    show ?thesis
    proof (cases "inSubtitleBlock b")
      case True
      have "agree S L
          ((check_swears U offset (ToLower U (subtitleText b)) swears a)
             \<lparr>inSubtitleBlock := False, subtitleText := []\<rparr>)
          ((check_swears U offset (ToLower U (subtitleText b)) swears b)
             \<lparr>inSubtitleBlock := False, subtitleText := []\<rparr>)"
        using agree_check_swears [OF assms True, of U offset "ToLower U (subtitleText b)" swears]
        by (simp add: agree_def)
      with True \<open>TrimSpace U raw = []\<close> i t show ?thesis
        by (simp add: scan_line_blank)
    next
      case False
      with \<open>TrimSpace U raw = []\<close> i assms show ?thesis by (simp add: scan_line_blank)
    qed
  next
    case ne: False
    show ?thesis
    proof (cases "inSubtitleBlock b")
      case True
      have "agree S L (a\<lparr>subtitleText := subtitleText a @ TrimSpace U raw @ '' ''\<rparr>)
          (b\<lparr>subtitleText := subtitleText b @ TrimSpace U raw @ '' ''\<rparr>)"
        using assms by (simp add: agree_def)
      with True ne i show ?thesis by (simp add: scan_line_def)
    next
      case False
      have "agree S L (a\<lparr>currentStart := x, currentEnd := y, inSubtitleBlock := True\<rparr>)
          (b\<lparr>currentStart := x, currentEnd := y, inSubtitleBlock := True\<rparr>)" for x y
        using assms by (simp add: agree_def)
      then have "\<exists>a' b'. Inr (a\<lparr>currentStart := x, currentEnd := y, inSubtitleBlock := True\<rparr>)
            = (Inr a' :: error + scanner_state) \<and>
          Inr (b\<lparr>currentStart := x, currentEnd := y, inSubtitleBlock := True\<rparr>)
            = (Inr b' :: error + scanner_state) \<and> agree S L a' b'" for x y
        by blast
      with False ne i assms show ?thesis
        unfolding scan_line_def Let_def
        by (cases "FindStringSubmatch (TrimSpace U raw)")
           (auto split: sum.splits)
    qed
  qed
qed

lemma agree_scan_lines:
  assumes "agree S L a b"
  shows "fst (scan_lines U swears offset a ls) = fst (scan_lines U swears offset b ls) \<and>
         agree S L (snd (scan_lines U swears offset a ls)) (snd (scan_lines U swears offset b ls))"
  using assms
proof (induction ls arbitrary: a b)
  case Nil
  then show ?case by simp
next
  case (Cons raw ls)
  from agree_scan_line [OF Cons.prems, of U swears offset raw] show ?case
  proof
    assume "\<exists>err. scan_line U swears offset a raw = Inl err \<and>
                scan_line U swears offset b raw = Inl err"
    with Cons.prems show ?thesis by auto
  next
    assume "\<exists>a' b'. scan_line U swears offset a raw = Inr a' \<and>
                   scan_line U swears offset b raw = Inr b' \<and> agree S L a' b'"
    then obtain a' b' where "scan_line U swears offset a raw = Inr a'"
      "scan_line U swears offset b raw = Inr b'" "agree S L a' b'" by blast
    with Cons.IH [of a' b'] show ?thesis by simp
  qed
qed

lemma agree_last_block:
  assumes "agree S L a b"
  shows "agree S L (last_block U swears offset a) (last_block U swears offset b)"
proof (cases "inSubtitleBlock b")
  case True
  with assms have "inSubtitleBlock a" "subtitleText a = subtitleText b"
    by (simp_all add: agree_def)
  with True agree_check_swears_last [OF assms True] show ?thesis
    by (simp add: last_block_def)
next
  case False
  with assms show ?thesis by (simp add: last_block_def agree_def)
qed

lemma scan_line_outside:
  assumes "scan_line U swears offset st raw = Inr st'"
    and "\<not> inSubtitleBlock st \<longrightarrow> subtitleText st = []"
  shows "\<not> inSubtitleBlock st' \<longrightarrow> subtitleText st' = []"
proof (cases "TrimSpace U raw = []")
  case True
  with assms show ?thesis
    by (auto simp: scan_line_blank split: if_splits)
next
  case False
  with assms show ?thesis
    unfolding scan_line_def Let_def
    by (cases "FindStringSubmatch (TrimSpace U raw)") (auto split: if_splits sum.splits)
qed

lemma scan_lines_outside:
  assumes "scan_lines U swears offset st ls = (None, st')"
    and "\<not> inSubtitleBlock st \<longrightarrow> subtitleText st = []"
  shows "\<not> inSubtitleBlock st' \<longrightarrow> subtitleText st' = []"
  using assms
proof (induction ls arbitrary: st)
  case Nil
  then show ?case by simp
next
  case (Cons raw ls)
  show ?case
  proof (cases "scan_line U swears offset st raw")
    case (Inl err)
    with Cons.prems show ?thesis by simp
  next
    case (Inr st1)
    have "\<not> inSubtitleBlock st1 \<longrightarrow> subtitleText st1 = []"
      using Inr Cons.prems(2) by (rule scan_line_outside)
    moreover have "scan_lines U swears offset st1 ls = (None, st')"
      using Cons.prems(1) Inr by simp
    ultimately show ?thesis by (rule Cons.IH [rotated])
  qed
qed

lemma FindStringSubmatch_not_Nil: "FindStringSubmatch line = Some m \<Longrightarrow> line \<noteq> []"
  by auto

lemma scan_line_block_start:
  assumes "\<not> inSubtitleBlock st"
    and "FindStringSubmatch (TrimSpace U ts) = Some (m1, m2)"
    and "parseSRTTime m1 = Inr blockStart" "parseSRTTime m2 = Inr blockEnd"
  shows "scan_line U swears offset st ts =
           Inr (st\<lparr>currentStart := blockStart, currentEnd := blockEnd, inSubtitleBlock := True\<rparr>)"
  using assms FindStringSubmatch_not_Nil [OF assms(2)]
  by (simp add: scan_line_def MatchString_def)

lemma scan_lines_block_body:
  assumes "inSubtitleBlock st" and "\<forall>l \<in> set body. TrimSpace U l \<noteq> []"
  shows "scan_lines U swears offset st body =
           (None, st\<lparr>subtitleText := subtitleText st @ block_text U body\<rparr>)"
  using assms
proof (induction body arbitrary: st)
  case Nil
  then show ?case by (simp add: block_text_def)
next
  case (Cons l body)
  let ?st = "st\<lparr>subtitleText := subtitleText st @ TrimSpace U l @ '' ''\<rparr>"
  have 1: "scan_line U swears offset st l = Inr ?st"
    using Cons.prems by (simp add: scan_line_def)
  have "scan_lines U swears offset ?st body =
      (None, ?st\<lparr>subtitleText := subtitleText ?st @ block_text U body\<rparr>)"
    using Cons.prems by (intro Cons.IH) simp_all
  with 1 show ?case by (simp add: block_text_def)
qed

lemma findSwearTimestamps_after:
  assumes "scan_lines U swears offset initial_state pfx = (None, a)"
    and "agree S L a initial_state"
  shows "findSwearTimestamps U (Opened (pfx @ rest) scanner_err) swears offset =
           (map_sum id (\<lambda>segs. S @ segs)
              (fst (findSwearTimestamps U (Opened rest scanner_err) swears offset)),
            L @ snd (findSwearTimestamps U (Opened rest scanner_err) swears offset))"
proof -
  obtain ea a' where A: "scan_lines U swears offset a rest = (ea, a')"
    by (cases "scan_lines U swears offset a rest")
  obtain eb b' where B: "scan_lines U swears offset initial_state rest = (eb, b')"
    by (cases "scan_lines U swears offset initial_state rest")
  from agree_scan_lines [OF assms(2), of U swears offset rest] A B
  have e: "ea = eb" and ag: "agree S L a' b'" by simp_all
  have whole: "scan_lines U swears offset initial_state (pfx @ rest) = (eb, a')"
    using assms(1) A e by (simp add: scan_lines_append)
  have ag2: "agree S L (last_block U swears offset a') (last_block U swears offset b')"
    using ag by (rule agree_last_block)
  show ?thesis
  proof (cases eb)
    case (Some err)
    with whole B ag show ?thesis
      by (simp add: findSwearTimestamps_def agree_def)
  next
    case None
    with whole B ag ag2 show ?thesis
      by (simp add: findSwearTimestamps_def agree_def Let_def)
  qed
qed

lemma example_index_line:
  "scan_lines ascii_only swears offset initial_state [''1''] = (None, initial_state)"
  by (simp add: scan_line_def example_lines initial_state_def)

lemma example_block_text:
  "block_text ascii_only [''what the Fuck''] = ''what the Fuck ''"
  by (simp add: block_text_def example_lines)

lemma example_empty_file:
  "findSwearTimestamps U (Opened [] False) swears offset = (Inr [], [])"
  by (simp add: findSwearTimestamps_def last_block_def initial_state_def)

subsection \<open>The claims\<close>

text \<open>
  Claim C5. Take a subtitle source in which a block follows lines that leave the scanner
  outside a block: a timestamp line with boundaries \<open>blockStart\<close> and \<open>blockEnd\<close>,
  then text lines that hold a swear, then a blank line and the rest of the source, or
  the end of the input. When both boundaries plus the offset are non-negative, the
  extractor returns for this block exactly the interval
  \<open>(blockStart + offset, blockEnd + offset)\<close>, after the intervals of the lines before
  and before those of the rest. When one of them is negative it returns no interval for
  the block and logs the warning with the offset and the boundaries before the offset:
  once at the end of the input, once for every swear found in the text at a blank line.
\<close>

theorem extractor_matched_block:
  assumes pre: "scan_lines U swears offset initial_state pre = (None, st0)"
      "\<not> inSubtitleBlock st0"
    and ts: "FindStringSubmatch (TrimSpace U ts) = Some (m1, m2)"
      "parseSRTTime m1 = Inr blockStart" "parseSRTTime m2 = Inr blockEnd"
    and body: "\<forall>l \<in> set body. TrimSpace U l \<noteq> []"
    and matched: "\<exists>swear \<in> set swears.
        Contains (ToLower U (block_text U body)) (ToLower U swear)"
    and blank: "TrimSpace U raw = []"
  shows "(0 \<le> blockStart + offset \<and> 0 \<le> blockEnd + offset \<longrightarrow>
            findSwearTimestamps U (Opened (pre @ ts # body @ raw # rest) scanner_err) swears offset =
              (map_sum id
                 (\<lambda>segs. (segments st0 @
                    [\<lparr>Start = blockStart + offset, End = blockEnd + offset\<rparr>]) @ segs)
                 (fst (findSwearTimestamps U (Opened rest scanner_err) swears offset)),
               logged st0 @ snd (findSwearTimestamps U (Opened rest scanner_err) swears offset)) \<and>
            findSwearTimestamps U (Opened (pre @ ts # body) False) swears offset =
              (Inr (segments st0 @ [\<lparr>Start = blockStart + offset, End = blockEnd + offset\<rparr>]),
               logged st0)) \<and>
         (blockStart + offset < 0 \<or> blockEnd + offset < 0 \<longrightarrow>
            findSwearTimestamps U (Opened (pre @ ts # body @ raw # rest) scanner_err) swears offset =
              (map_sum id (\<lambda>segs. segments st0 @ segs)
                 (fst (findSwearTimestamps U (Opened rest scanner_err) swears offset)),
               (logged st0 @
                replicate
                  (length (filter (\<lambda>swear. Contains (ToLower U (block_text U body))
                                     (ToLower U swear)) swears))
                  (warning offset blockStart blockEnd)) @
               snd (findSwearTimestamps U (Opened rest scanner_err) swears offset)) \<and>
            0 < length (filter (\<lambda>swear. Contains (ToLower U (block_text U body))
                                  (ToLower U swear)) swears) \<and>
            findSwearTimestamps U (Opened (pre @ ts # body) False) swears offset =
              (Inr (segments st0), logged st0 @ [warning offset blockStart blockEnd]))"
proof -
  define st2 where "st2 = st0\<lparr>currentStart := blockStart, currentEnd := blockEnd,
    inSubtitleBlock := True, subtitleText := block_text U body\<rparr>"
  define st3 where "st3 = (check_swears U offset (ToLower U (block_text U body)) swears st2)
    \<lparr>inSubtitleBlock := False, subtitleText := []\<rparr>"
  have t0: "subtitleText st0 = []"
    using scan_lines_outside [OF pre(1)] pre(2) by (simp add: initial_state_def)
  have b1: "scan_lines U swears offset
      (st0\<lparr>currentStart := blockStart, currentEnd := blockEnd, inSubtitleBlock := True\<rparr>) body
      = (None, st2)"
    using body t0 by (simp add: scan_lines_block_body st2_def)
  have s2: "scan_lines U swears offset initial_state (pre @ ts # body) = (None, st2)"
    using pre(1) b1 by (simp add: scan_lines_append scan_line_block_start [OF pre(2) ts])
  have v: "currentStart st2 = blockStart" "currentEnd st2 = blockEnd" "inSubtitleBlock st2"
    "subtitleText st2 = block_text U body" "segments st2 = segments st0"
    "logged st2 = logged st0"
    by (simp_all add: st2_def)
  have l3: "scan_line U swears offset st2 raw = Inr st3"
    using v(3,4) by (simp add: scan_line_blank [OF blank] st3_def)
  have "scan_lines U swears offset initial_state ((pre @ ts # body) @ [raw]) = (None, st3)"
    using s2 l3 by (simp add: scan_lines_append del: append_assoc)
  then have s3: "scan_lines U swears offset initial_state (pre @ ts # body @ [raw]) = (None, st3)"
    by simp
  have ag: "agree (segments st3) (logged st3) st3 initial_state"
    by (simp add: agree_def initial_state_def st3_def)
  have after: "findSwearTimestamps U (Opened (pre @ ts # body @ raw # rest) scanner_err) swears offset =
      (map_sum id (\<lambda>segs. segments st3 @ segs)
         (fst (findSwearTimestamps U (Opened rest scanner_err) swears offset)),
       logged st3 @ snd (findSwearTimestamps U (Opened rest scanner_err) swears offset))"
    using findSwearTimestamps_after [OF s3 ag, of rest scanner_err] by simp
  have last: "findSwearTimestamps U (Opened (pre @ ts # body) False) swears offset =
      (Inr (segments (check_swears_last U offset (ToLower U (block_text U body)) swears st2)),
       logged (check_swears_last U offset (ToLower U (block_text U body)) swears st2))"
    using s2 v(3,4) by (simp add: findSwearTimestamps_def last_block_def Let_def)
  show ?thesis
  proof (intro conjI impI)
    assume ok: "0 \<le> blockStart + offset \<and> 0 \<le> blockEnd + offset"
    then have a: "0 \<le> currentStart st2 + offset" and b: "0 \<le> currentEnd st2 + offset"
      using v by auto
    have "segments st3 = segments st0 @ [\<lparr>Start = blockStart + offset, End = blockEnd + offset\<rparr>]"
      "logged st3 = logged st0"
      unfolding st3_def check_swears_emit [OF matched a b] by (simp_all add: v)
    with after show "findSwearTimestamps U (Opened (pre @ ts # body @ raw # rest) scanner_err) swears offset =
        (map_sum id
           (\<lambda>segs. (segments st0 @
              [\<lparr>Start = blockStart + offset, End = blockEnd + offset\<rparr>]) @ segs)
           (fst (findSwearTimestamps U (Opened rest scanner_err) swears offset)),
         logged st0 @ snd (findSwearTimestamps U (Opened rest scanner_err) swears offset))"
      by simp
    show "findSwearTimestamps U (Opened (pre @ ts # body) False) swears offset =
        (Inr (segments st0 @ [\<lparr>Start = blockStart + offset, End = blockEnd + offset\<rparr>]),
         logged st0)"
      unfolding last check_swears_last_emit [OF matched a b] by (simp add: v)
  next
    assume "blockStart + offset < 0 \<or> blockEnd + offset < 0"
    then have neg: "currentStart st2 + offset < 0 \<or> currentEnd st2 + offset < 0"
      using v by simp
    have "segments st3 = segments st0"
      "logged st3 = logged st0 @
          replicate
            (length (filter (\<lambda>swear. Contains (ToLower U (block_text U body))
                               (ToLower U swear)) swears))
            (warning offset blockStart blockEnd)"
      unfolding st3_def check_swears_warn [OF neg] by (simp_all add: v)
    with after show "findSwearTimestamps U (Opened (pre @ ts # body @ raw # rest) scanner_err) swears offset =
        (map_sum id (\<lambda>segs. segments st0 @ segs)
           (fst (findSwearTimestamps U (Opened rest scanner_err) swears offset)),
         (logged st0 @
          replicate
            (length (filter (\<lambda>swear. Contains (ToLower U (block_text U body))
                               (ToLower U swear)) swears))
            (warning offset blockStart blockEnd)) @
         snd (findSwearTimestamps U (Opened rest scanner_err) swears offset))"
      by simp
    show "0 < length (filter (\<lambda>swear. Contains (ToLower U (block_text U body))
                                  (ToLower U swear)) swears)"
      using matched by (rule filter_match_pos)
    show "findSwearTimestamps U (Opened (pre @ ts # body) False) swears offset =
        (Inr (segments st0), logged st0 @ [warning offset blockStart blockEnd])"
      unfolding last check_swears_last_warn [OF matched neg] by (simp add: v)
  qed
qed

theorem extractor_matched_block_witness:
  "scan_lines ascii_only [''fuck''] (- (1 / 2)) initial_state [''1''] = (None, initial_state) \<and>
   \<not> inSubtitleBlock initial_state \<and>
   FindStringSubmatch (TrimSpace ascii_only ''00:00:05,000 --> 00:00:06,000'')
     = Some (''00:00:05,000'', ''00:00:06,000'') \<and>
   parseSRTTime ''00:00:05,000'' = Inr 5 \<and> parseSRTTime ''00:00:06,000'' = Inr 6 \<and>
   TrimSpace ascii_only ''what the Fuck'' \<noteq> [] \<and>
   (\<exists>swear \<in> set [''fuck''].
      Contains (ToLower ascii_only (block_text ascii_only [''what the Fuck'']))
        (ToLower ascii_only swear)) \<and>
   TrimSpace ascii_only '''' = [] \<and>
   (0::real) \<le> 5 + - (1 / 2) \<and> (0::real) \<le> 6 + - (1 / 2) \<and>
   findSwearTimestamps ascii_only
     (Opened [''1'', ''00:00:05,000 --> 00:00:06,000'', ''what the Fuck'', ''''] False)
     [''fuck''] (- (1 / 2)) = (Inr [\<lparr>Start = 9 / 2, End = 11 / 2\<rparr>], []) \<and>
   findSwearTimestamps ascii_only
     (Opened [''1'', ''00:00:05,000 --> 00:00:06,000'', ''what the Fuck''] False)
     [''fuck''] (- (1 / 2)) = (Inr [\<lparr>Start = 9 / 2, End = 11 / 2\<rparr>], []) \<and>
   (5::real) + - 10 < 0 \<and>
   findSwearTimestamps ascii_only
     (Opened [''1'', ''00:00:05,000 --> 00:00:06,000'', ''what the Fuck'', ''''] False)
     [''fuck''] (- 10) =
     (Inr [], [''Warning: Offset -10.000000 makes segment (5.000000, 6.000000) negative, skipping'']) \<and>
   findSwearTimestamps ascii_only
     (Opened [''1'', ''00:00:05,000 --> 00:00:06,000'', ''what the Fuck''] False)
     [''fuck''] (- 10) =
     (Inr [], [''Warning: Offset -10.000000 makes segment (5.000000, 6.000000) negative, skipping''])"
proof -
  have p: "scan_lines ascii_only [''fuck''] offset initial_state [''1''] = (None, initial_state)"
    for offset by (rule example_index_line)
  have o: "\<not> inSubtitleBlock initial_state" by (simp add: initial_state_def)
  have f: "FindStringSubmatch (TrimSpace ascii_only ''00:00:05,000 --> 00:00:06,000'')
      = Some (''00:00:05,000'', ''00:00:06,000'')"
    by (simp only: example_lines)
  have b: "\<forall>l \<in> set [''what the Fuck'']. TrimSpace ascii_only l \<noteq> []"
    by (simp add: example_lines)
  have c: "Contains (ToLower ascii_only (block_text ascii_only [''what the Fuck'']))
      (ToLower ascii_only ''fuck'')"
    using example_match by (simp only: example_block_text) (simp add: example_block_def)
  then have m: "\<exists>swear \<in> set [''fuck''].
      Contains (ToLower ascii_only (block_text ascii_only [''what the Fuck'']))
        (ToLower ascii_only swear)"
    by simp
  have t: "TrimSpace ascii_only '''' = []" by (rule example_lines)
  have k: "length (filter (\<lambda>swear. Contains (ToLower ascii_only
      (block_text ascii_only [''what the Fuck''])) (ToLower ascii_only swear)) [''fuck'']) = 1"
    using c by simp
  have i: "segments initial_state = []" "logged initial_state = []"
    by (simp_all add: initial_state_def)
  note ex = extractor_matched_block [OF p o f example_times b m t, of _ "[]" False]
  show ?thesis
    using p [of "- (1 / 2)"] o f example_times b m t ex [of "- (1 / 2)"] ex [of "- 10"]
    unfolding k i example_empty_file example_warning
    by simp
qed

text \<open>
  Claim C8. Inside a block, a line that matches the timestamp-range pattern is added
  to the text of the block like any other line, and no new block starts.
\<close>

theorem scan_line_timestamp_in_block:
  assumes "inSubtitleBlock st" and "MatchString (TrimSpace U raw)"
  shows "scan_line U swears offset st raw =
           Inr (st\<lparr>subtitleText := subtitleText st @ TrimSpace U raw @ '' ''\<rparr>)"
  using assms MatchString_not_Nil [OF assms(2)] by (simp add: scan_line_def)

theorem scan_line_timestamp_in_block_witness:
  "inSubtitleBlock example_block \<and>
   MatchString (TrimSpace ascii_only ''00:00:05,000 --> 00:00:06,000'') \<and>
   scan_line ascii_only [''fuck''] 0 example_block ''00:00:05,000 --> 00:00:06,000'' =
     Inr \<lparr>segments = [], currentStart = 5, currentEnd = 6, inSubtitleBlock = True,
          subtitleText = ''what the Fuck 00:00:05,000 --> 00:00:06,000 '', logged = []\<rparr>"
proof -
  have b: "inSubtitleBlock example_block" by (simp add: example_block_def)
  have m: "MatchString (TrimSpace ascii_only ''00:00:05,000 --> 00:00:06,000'')"
    by (simp add: example_lines)
  show ?thesis
    using b m scan_line_timestamp_in_block [OF b m, of "[''fuck'']" 0]
    by (simp add: example_block_def example_lines)
qed

text \<open>
  Claim C9. The end of the input closes the last block: a source without a blank line
  after its last block gives the same result, intervals or error, as the same source
  with the blank line.
\<close>

theorem end_of_input_terminates_block:
  assumes "TrimSpace U raw = []"
  shows "fst (findSwearTimestamps U (Opened lines scanner_err) swears offset) =
         fst (findSwearTimestamps U (Opened (lines @ [raw]) scanner_err) swears offset)"
proof (cases "scan_lines U swears offset initial_state lines")
  case (Pair e st)
  show ?thesis
  proof (cases e)
    case (Some err)
    with Pair show ?thesis
      by (simp add: findSwearTimestamps_def scan_lines_append)
  next
    case None
    show ?thesis
    proof (cases "inSubtitleBlock st")
      case True
      have "scan_lines U swears offset initial_state (lines @ [raw]) =
          (None, (check_swears U offset (ToLower U (subtitleText st)) swears st)
                    \<lparr>inSubtitleBlock := False, subtitleText := []\<rparr>)"
        using Pair None True by (simp add: scan_lines_append scan_line_blank [OF assms])
      then show ?thesis
        using Pair None True
        by (simp add: findSwearTimestamps_def last_block_def segments_check_swears Let_def)
    next
      case False
      have "scan_lines U swears offset initial_state (lines @ [raw]) = (None, st)"
        using Pair None False by (simp add: scan_lines_append scan_line_blank [OF assms])
      then show ?thesis
        using Pair None by (simp add: findSwearTimestamps_def Let_def)
    qed
  qed
qed

theorem end_of_input_terminates_block_witness:
  "TrimSpace ascii_only '''' = [] \<and>
   fst (findSwearTimestamps ascii_only
          (Opened [''1'', ''00:00:05,000 --> 00:00:06,000'', ''what the Fuck''] False)
          [''fuck''] (- (1 / 2))) = Inr [\<lparr>Start = 9 / 2, End = 11 / 2\<rparr>] \<and>
   fst (findSwearTimestamps ascii_only
          (Opened [''1'', ''00:00:05,000 --> 00:00:06,000'', ''what the Fuck'', ''''] False)
          [''fuck''] (- (1 / 2))) = Inr [\<lparr>Start = 9 / 2, End = 11 / 2\<rparr>]"
proof -
  have t: "TrimSpace ascii_only '''' = []" by (rule example_lines)
  have l: "segments (last_block ascii_only [''fuck''] (- (1 / 2)) example_block) =
      [\<lparr>Start = 9 / 2, End = 11 / 2\<rparr>]"
    using example_match by (simp add: last_block_def) (simp add: example_block_def)
  have e: "fst (findSwearTimestamps ascii_only
          (Opened [''1'', ''00:00:05,000 --> 00:00:06,000'', ''what the Fuck''] False)
          [''fuck''] (- (1 / 2))) = Inr [\<lparr>Start = 9 / 2, End = 11 / 2\<rparr>]"
    unfolding findSwearTimestamps_def srt_file.case example_scan
    by (simp add: l Let_def)
  show ?thesis
    using t e end_of_input_terminates_block [OF t, of
        "[''1'', ''00:00:05,000 --> 00:00:06,000'', ''what the Fuck'']" False "[''fuck'']" "- (1 / 2)"]
    by simp
qed

end
